theory Spec2Isabelle
  imports Main
begin

section \<open>JavaScript values and failures\<close>

text \<open>
  Reading a JavaScript array outside its bounds yields \<^verbatim>\<open>undefined\<close>; the
  model returns \<open>None\<close> there, and \<open>Some v\<close> for a stored value \<open>v\<close>.
\<close>

definition nth_opt :: "'a list \<Rightarrow> nat \<Rightarrow> 'a option" where
  "nth_opt xs i = (if i < length xs then Some (xs ! i) else None)"

text \<open>
  Every \<^verbatim>\<open>throw\<close> of the transform engine and of the codec is a value of this
  type. The last value is the outcome of a call whose loop runs forever.
\<close>

datatype error =
    StackNotFound
  | NewStackPrefixUndefined
  | ExistingCollapsedStackNull
  | NewPrefixStackIndexUndefined
  | PrefixMapsToUndefined
  | ConvertedStackUndefined
  | StringNotInTable
  | DecodeFailed
  | DoesNotReturn

text \<open>A \<^verbatim>\<open>for\<close> loop whose body may throw: the first failure ends the loop.\<close>

fun forE :: "nat list \<Rightarrow> ('s \<Rightarrow> nat \<Rightarrow> error + 's) \<Rightarrow> 's \<Rightarrow> error + 's" where
  "forE [] body s = Inr s"
| "forE (i # is) body s = (case body s i of Inl e \<Rightarrow> Inl e | Inr s' \<Rightarrow> forE is body s')"

text \<open>\<^verbatim>\<open>Array.prototype.map\<close> with a callback that may throw.\<close>

fun mapE :: "('a \<Rightarrow> error + 'b) \<Rightarrow> 'a list \<Rightarrow> error + 'b list" where
  "mapE f [] = Inr []"
| "mapE f (x # xs) =
     (case f x of
        Inl e \<Rightarrow> Inl e
      | Inr y \<Rightarrow> (case mapE f xs of Inl e \<Rightarrow> Inl e | Inr ys \<Rightarrow> Inr (y # ys)))"

section \<open>The profile data model\<close>

text \<open>
  The stack table is columnar in the source: the arrays \<^verbatim>\<open>prefix\<close>,
  \<^verbatim>\<open>frame\<close>, \<^verbatim>\<open>category\<close> and \<^verbatim>\<open>subcategory\<close> all
  have \<^verbatim>\<open>length\<close> entries. The model keeps one record per row, so that
  \<^verbatim>\<open>stackTable.length\<close> is the length of the list and
  \<^verbatim>\<open>stackTable.prefix[i]\<close> is \<open>prefix (stackTable ! i)\<close>. A null prefix
  is \<open>None\<close>.
\<close>

record Stack =
  prefix :: "nat option"
  frame :: nat
  category :: nat
  subcategory :: nat

type_synonym StackTable = "Stack list"

text \<open>
  Of the frame, func and resource tables the model keeps the columns the transforms
  read, and the \<^verbatim>\<open>length\<close> field of the two tables that
  \<^verbatim>\<open>collapseResource\<close> extends. An entry of \<open>name\<close> is \<open>None\<close> when
  \<^verbatim>\<open>undefined\<close> was pushed there. The resource of a func is \<open>-1\<close> when
  it has none.
\<close>

record FrameTable =
  func :: "nat list"
  frameTableLength :: nat

record FuncTable =
  name :: "int option list"
  isJS :: "bool list"
  relevantForJS :: "bool list"
  resource :: "int list"
  funcTableLength :: nat

record ResourceTable =
  resourceName :: "int list"

text \<open>
  A sample-like table (samples, JS allocations, native allocations): the
  \<^verbatim>\<open>stack\<close> column, and \<open>time\<close> and \<open>weight\<close> standing for the
  columns that no transform touches.
\<close>

record SamplesLikeTable =
  stack :: "nat option list"
  time :: "int list"
  weight :: "int list option"

record Thread =
  samples :: SamplesLikeTable
  jsAllocations :: "SamplesLikeTable option"
  nativeAllocations :: "SamplesLikeTable option"
  stackTable :: StackTable
  frameTable :: FrameTable
  funcTable :: FuncTable
  resourceTable :: ResourceTable
  stringTable :: "string list"

section \<open>Rewriting the stack columns\<close>

text \<open>
  Modelled from the spec: \<^verbatim>\<open>updateThreadStacks\<close> and
  \<^verbatim>\<open>getMapStackUpdater\<close> of \<^verbatim>\<open>profile-data.js\<close>, which is not
  among the sources. The spec: every sample-like table's stack column is rewritten
  through the mapping from old stack indices (and null) to new ones, the thread gets the
  new stack table, and a stack with no entry in the mapping is an error. The mapping sends
  null to null.
\<close>

definition updateStackColumn ::
  "(nat option \<Rightarrow> error + nat option) \<Rightarrow> SamplesLikeTable \<Rightarrow> error + SamplesLikeTable" where
  "updateStackColumn convertStack tbl =
     (case mapE convertStack (stack tbl) of
        Inl e \<Rightarrow> Inl e
      | Inr newStack \<Rightarrow> Inr (tbl\<lparr>stack := newStack\<rparr>))"

definition updateOptionalStackColumn ::
  "(nat option \<Rightarrow> error + nat option) \<Rightarrow> SamplesLikeTable option
     \<Rightarrow> error + SamplesLikeTable option" where
  "updateOptionalStackColumn convertStack tbl =
     (case tbl of
        None \<Rightarrow> Inr None
      | Some t \<Rightarrow>
          (case updateStackColumn convertStack t of
             Inl e \<Rightarrow> Inl e
           | Inr t' \<Rightarrow> Inr (Some t')))"

definition updateThreadStacks ::
  "Thread \<Rightarrow> StackTable \<Rightarrow> (nat option \<Rightarrow> error + nat option) \<Rightarrow> error + Thread" where
  "updateThreadStacks thread newStackTable convertStack =
     (case updateStackColumn convertStack (samples thread) of
        Inl e \<Rightarrow> Inl e
      | Inr newSamples \<Rightarrow>
     (case updateOptionalStackColumn convertStack (jsAllocations thread) of
        Inl e \<Rightarrow> Inl e
      | Inr newJsAllocations \<Rightarrow>
     (case updateOptionalStackColumn convertStack (nativeAllocations thread) of
        Inl e \<Rightarrow> Inl e
      | Inr newNativeAllocations \<Rightarrow>
          Inr (thread\<lparr>samples := newSamples,
                      stackTable := newStackTable,
                      jsAllocations := newJsAllocations,
                      nativeAllocations := newNativeAllocations\<rparr>))))"

definition getMapStackUpdater ::
  "(nat option \<rightharpoonup> nat option) \<Rightarrow> nat option \<Rightarrow> error + nat option" where
  "getMapStackUpdater oldStackToNewStack oldStack =
     (case oldStack of
        None \<Rightarrow> Inr None
      | Some s \<Rightarrow>
          (case oldStackToNewStack (Some s) of
             None \<Rightarrow> Inl StackNotFound
           | Some newStack \<Rightarrow> Inr newStack))"

section \<open>drop-function\<close>

text \<open>\<^verbatim>\<open>frameTable.func[stackTable.frame[stackIndex]]\<close>, undefined when the frame
  index is out of range.\<close>

definition stackFunc :: "Thread \<Rightarrow> nat \<Rightarrow> nat option" where
  "stackFunc thread stackIndex =
     nth_opt (func (frameTable thread)) (frame (stackTable thread ! stackIndex))"

text \<open>
  The loop body of \<^verbatim>\<open>dropFunction\<close>. The sparse array
  \<^verbatim>\<open>stackContainsFunc\<close> holds \<^verbatim>\<open>true\<close> at the indices in the set.
\<close>

definition dropFunction_body :: "Thread \<Rightarrow> nat \<Rightarrow> nat \<Rightarrow> nat set \<Rightarrow> nat set" where
  "dropFunction_body thread funcIndexToDrop stackIndex stackContainsFunc =
     (let prefix = prefix (stackTable thread ! stackIndex);
          funcIndex = stackFunc thread stackIndex
      in if funcIndex = Some funcIndexToDrop \<or>
            (case prefix of None \<Rightarrow> False | Some p \<Rightarrow> p \<in> stackContainsFunc)
         then insert stackIndex stackContainsFunc
         else stackContainsFunc)"

definition dropFunction_stacks :: "Thread \<Rightarrow> nat \<Rightarrow> nat set" where
  "dropFunction_stacks thread funcIndexToDrop =
     fold (dropFunction_body thread funcIndexToDrop) [0..<length (stackTable thread)] {}"

definition dropFunction :: "Thread \<Rightarrow> nat \<Rightarrow> error + Thread" where
  "dropFunction thread funcIndexToDrop =
     (let stackContainsFunc = dropFunction_stacks thread funcIndexToDrop
      in updateThreadStacks thread (stackTable thread)
           (\<lambda>oldStack. Inr (case oldStack of
                                None \<Rightarrow> None
                              | Some s \<Rightarrow> if s \<in> stackContainsFunc then None else Some s)))"


section \<open>Transforms\<close>

datatype ImplementationFilter = combined | js | cpp

datatype TransformType =
    focus_subtree
  | focus_function
  | merge_call_node
  | merge_function
  | drop_function
  | collapse_resource
  | collapse_direct_recursion
  | collapse_function_subtree

text \<open>
  A transform, by kind. The fields are, in this order: for focus-subtree the
  implementation, the call node path and \<^verbatim>\<open>inverted\<close>; for merge-call-node the
  implementation and the call node path; for collapse-resource the resource index, the
  collapsed func index and the implementation; for collapse-direct-recursion the func
  index and the implementation; for the other four the func index. Indices that the parser
  guards with \<^verbatim>\<open>>= 0\<close> are naturals; \<^verbatim>\<open>collapsedFuncIndex\<close>, which it does
  not guard, is an integer.
\<close>

datatype Transform =
    FocusSubtree ImplementationFilter "nat list" bool
  | FocusFunction nat
  | MergeCallNode ImplementationFilter "nat list"
  | MergeFunction nat
  | DropFunction nat
  | CollapseResource nat int ImplementationFilter
  | CollapseDirectRecursion nat ImplementationFilter
  | CollapseFunctionSubtree nat


section \<open>Strings and numbers of JavaScript\<close>

text \<open>\<^verbatim>\<open>String.prototype.split\<close> with a one-character separator.\<close>

fun js_split :: "char \<Rightarrow> string \<Rightarrow> string list" where
  "js_split sep [] = [[]]"
| "js_split sep (c # cs) =
     (if c = sep then [] # js_split sep cs
      else (case js_split sep cs of
              [] \<Rightarrow> [[c]]
            | w # ws \<Rightarrow> (c # w) # ws))"


definition isDigit :: "char \<Rightarrow> bool" where
  "isDigit c = (c \<in> set ''0123456789'')"

definition isWhiteSpace :: "char \<Rightarrow> bool" where
  "isWhiteSpace c = (c \<in> set [CHR '' '', CHR 0x09, CHR 0x0A, CHR 0x0B, CHR 0x0C, CHR 0x0D])"

definition digitValue :: "char \<Rightarrow> nat" where
  "digitValue c = length (takeWhile (\<lambda>d. d \<noteq> c) ''0123456789'')"

definition digitChar :: "nat \<Rightarrow> char" where
  "digitChar d = ''0123456789'' ! d"

definition digitsValue :: "string \<Rightarrow> nat" where
  "digitsValue ds = foldl (\<lambda>acc c. 10 * acc + digitValue c) 0 ds"

text \<open>
  \<^verbatim>\<open>parseInt(raw, 10)\<close>: white space is skipped, a sign is read, and the longest
  run of decimal digits that follows is the number; without a digit the result is
  \<^verbatim>\<open>NaN\<close>, here \<open>None\<close>. An argument that is \<^verbatim>\<open>undefined\<close> is read as
  the string \<^verbatim>\<open>"undefined"\<close>, which has no digit. Strings are lists of
  8-bit characters here, and the white space is the one of ASCII.
\<close>

definition parseInt :: "string option \<Rightarrow> int option" where
  "parseInt raw =
     (case raw of
        None \<Rightarrow> None
      | Some s \<Rightarrow>
          (let t = dropWhile isWhiteSpace s;
               negative = (case t of [] \<Rightarrow> False | c # _ \<Rightarrow> c = CHR ''-'');
               u = (case t of
                      [] \<Rightarrow> []
                    | c # r \<Rightarrow> if c = CHR ''-'' \<or> c = CHR ''+'' then r else t);
               ds = takeWhile isDigit u
           in if ds = [] then None
              else if negative then Some (- int (digitsValue ds))
              else Some (int (digitsValue ds))))"

text \<open>The decimal string of a number, as a template literal prints an integer.\<close>

function showNat :: "nat \<Rightarrow> string" where
  "showNat n = (if n < 10 then [digitChar n] else showNat (n div 10) @ [digitChar (n mod 10)])"
  by pat_completeness auto
termination
  by (relation "measure id") auto

declare showNat.simps [simp del]


section \<open>The transform stack codec\<close>

fun TRANSFORM_TO_SHORT_KEY :: "TransformType \<Rightarrow> string" where
  "TRANSFORM_TO_SHORT_KEY focus_subtree = ''f''"
| "TRANSFORM_TO_SHORT_KEY focus_function = ''ff''"
| "TRANSFORM_TO_SHORT_KEY merge_call_node = ''mcn''"
| "TRANSFORM_TO_SHORT_KEY merge_function = ''mf''"
| "TRANSFORM_TO_SHORT_KEY drop_function = ''df''"
| "TRANSFORM_TO_SHORT_KEY collapse_resource = ''cr''"
| "TRANSFORM_TO_SHORT_KEY collapse_direct_recursion = ''rec''"
| "TRANSFORM_TO_SHORT_KEY collapse_function_subtree = ''cfs''"

text \<open>
  The inverse table, followed by \<^verbatim>\<open>convertToTransformType\<close> (of
  \<^verbatim>\<open>utils/flow.js\<close>, not among the sources; modelled from the spec: a key that is
  none of the eight short keys has no transform type, which is null).
\<close>

definition SHORT_KEY_TO_TRANSFORM :: "string option \<Rightarrow> TransformType option" where
  "SHORT_KEY_TO_TRANSFORM shortKey =
     (case shortKey of
        None \<Rightarrow> None
      | Some k \<Rightarrow>
          find (\<lambda>t. TRANSFORM_TO_SHORT_KEY t = k)
            [focus_subtree, focus_function, merge_call_node, merge_function, drop_function,
             collapse_resource, collapse_direct_recursion, collapse_function_subtree])"

text \<open>
  Modelled from the spec: \<^verbatim>\<open>toValidImplementationFilter\<close> of
  \<^verbatim>\<open>profile-data.js\<close>, which is not among the sources. The spec names the three
  filters \<^verbatim>\<open>combined\<close>, \<^verbatim>\<open>cpp\<close> and \<^verbatim>\<open>js\<close>; anything else,
  \<^verbatim>\<open>undefined\<close> included, is read as \<^verbatim>\<open>combined\<close>.
\<close>

definition toValidImplementationFilter :: "string option \<Rightarrow> ImplementationFilter" where
  "toValidImplementationFilter implementation =
     (if implementation = Some ''cpp'' then cpp
      else if implementation = Some ''js'' then js
      else combined)"

fun implementationString :: "ImplementationFilter \<Rightarrow> string" where
  "implementationString combined = ''combined''"
| "implementationString js = ''js''"
| "implementationString cpp = ''cpp''"







section \<open>Implementation filters\<close>

text \<open>\<^verbatim>\<open>column[funcIndex]\<close>, where the func index itself may be undefined.\<close>

definition funcColumn :: "'a list \<Rightarrow> nat option \<Rightarrow> 'a option" where
  "funcColumn col funcIndex = (case funcIndex of None \<Rightarrow> None | Some f \<Rightarrow> nth_opt col f)"

text \<open>
  Modelled from the spec: \<^verbatim>\<open>stringTable.getString\<close> of
  \<^verbatim>\<open>utils/unique-string-array.js\<close>, which is not among the sources. The spec:
  \<^verbatim>\<open>getString(index) -> string\<close>. An index that is not in the table, or is
  undefined, has no string: that is a failure.
\<close>

definition getString :: "string list \<Rightarrow> int option \<Rightarrow> error + string" where
  "getString tbl index =
     (case index of
        None \<Rightarrow> Inl StringNotInTable
      | Some i \<Rightarrow>
          if 0 \<le> i \<and> i < int (length tbl) then Inr (tbl ! nat i) else Inl StringNotInTable)"

fun FUNC_MATCHES :: "ImplementationFilter \<Rightarrow> Thread \<Rightarrow> nat option \<Rightarrow> error + bool" where
  "FUNC_MATCHES combined thread funcIndex = Inr True"
| "FUNC_MATCHES cpp thread funcIndex =
     (if funcColumn (isJS (funcTable thread)) funcIndex = Some True then Inr False
      else
        (case getString (stringTable thread)
                (case funcColumn (name (funcTable thread)) funcIndex of
                   None \<Rightarrow> None
                 | Some n \<Rightarrow> n) of
           Inl e \<Rightarrow> Inl e
         | Inr locationString \<Rightarrow>
             (let isProbablyJitCode =
                    (funcColumn (resource (funcTable thread)) funcIndex = Some (- 1) \<and>
                     take 2 locationString = ''0x'')
              in Inr (\<not> isProbablyJitCode))))"
| "FUNC_MATCHES js thread funcIndex =
     Inr (funcColumn (isJS (funcTable thread)) funcIndex = Some True \<or>
          funcColumn (relevantForJS (funcTable thread)) funcIndex = Some True)"

section \<open>The transforms that build a new stack table\<close>

text \<open>
  What every loop of this kind carries: the table \<^verbatim>\<open>newStackTable\<close> and the map
  \<^verbatim>\<open>oldStackToNewStack\<close>, whose keys and values are stack indices or null. A key
  that the map does not hold is looked up as \<open>None\<close> (\<^verbatim>\<open>undefined\<close>).
\<close>

record BuildState =
  newStackTable :: StackTable
  oldStackToNewStack :: "nat option \<rightharpoonup> nat option"

definition emptyBuildState :: BuildState where
  "emptyBuildState = \<lparr>newStackTable = [], oldStackToNewStack = [None \<mapsto> None]\<rparr>"

text \<open>An index into an array, given as a number that may be negative or undefined.\<close>

definition nth_int :: "'a list \<Rightarrow> int option \<Rightarrow> 'a option" where
  "nth_int xs i =
     (case i of None \<Rightarrow> None | Some k \<Rightarrow> if 0 \<le> k then nth_opt xs (nat k) else None)"

subsection \<open>merge-call-node\<close>

record MergeCallNodeState = BuildState +
  stackDepths :: "int option list"
  stackMatches :: "bool list"

definition mergeCallNode_body ::
  "Thread \<Rightarrow> nat list \<Rightarrow> ImplementationFilter \<Rightarrow> MergeCallNodeState \<Rightarrow> nat
     \<Rightarrow> error + MergeCallNodeState" where
  "mergeCallNode_body thread callNodePath implementation s stackIndex =
     (let depthAtCallNodePathLeaf = int (length callNodePath) - 1;
          row = stackTable thread ! stackIndex;
          funcIndex = stackFunc thread stackIndex;
          doesPrefixMatch =
            (case prefix row of None \<Rightarrow> True | Some p \<Rightarrow> nth_opt (stackMatches s) p = Some True);
          prefixDepth =
            (case prefix row of
               None \<Rightarrow> Some (- 1)
             | Some p \<Rightarrow> (case nth_opt (stackDepths s) p of None \<Rightarrow> None | Some d \<Rightarrow> d));
          currentFuncOnPath = nth_int callNodePath (map_option (\<lambda>d. d + 1) prefixDepth);
          newStackPrefix =
            (case oldStackToNewStack s (prefix row) of None \<Rightarrow> None | Some p \<Rightarrow> p);
          finish = (\<lambda>doMerge stackDepth doesMatchCallNodePath.
            (let s1 = s\<lparr>stackMatches := stackMatches s @ [doesMatchCallNodePath],
                        stackDepths := stackDepths s @ [stackDepth]\<rparr>
             in if doMerge
                then s1\<lparr>oldStackToNewStack :=
                          (oldStackToNewStack s)(Some stackIndex \<mapsto> newStackPrefix)\<rparr>
                else s1\<lparr>newStackTable := newStackTable s @
                          [\<lparr>prefix = newStackPrefix, frame = frame row,
                            category = category row, subcategory = subcategory row\<rparr>],
                        oldStackToNewStack :=
                          (oldStackToNewStack s)
                            (Some stackIndex \<mapsto> Some (length (newStackTable s)))\<rparr>))
      in if doesPrefixMatch \<and>
            (case prefixDepth of None \<Rightarrow> False | Some d \<Rightarrow> d < depthAtCallNodePathLeaf)
         then
           (if currentFuncOnPath = funcIndex
            then
              (if map_option (\<lambda>d. d + 1) prefixDepth = Some depthAtCallNodePathLeaf
               then Inr (finish True prefixDepth True)
               else Inr (finish False (map_option (\<lambda>d. d + 1) prefixDepth) True))
            else
              (case FUNC_MATCHES implementation thread funcIndex of
                 Inl e \<Rightarrow> Inl e
               | Inr matches \<Rightarrow>
                   if \<not> matches then Inr (finish False prefixDepth True)
                   else Inr (finish False prefixDepth False)))
         else Inr (finish False prefixDepth False))"

definition mergeCallNode :: "Thread \<Rightarrow> nat list \<Rightarrow> ImplementationFilter \<Rightarrow> error + Thread" where
  "mergeCallNode thread callNodePath implementation =
     (case forE [0..<length (stackTable thread)]
             (mergeCallNode_body thread callNodePath implementation)
             \<lparr>newStackTable = [], oldStackToNewStack = [None \<mapsto> None],
              stackDepths = [], stackMatches = []\<rparr> of
        Inl e \<Rightarrow> Inl e
      | Inr s \<Rightarrow>
          updateThreadStacks thread (newStackTable s)
            (getMapStackUpdater (oldStackToNewStack s)))"

subsection \<open>merge-function\<close>

definition mergeFunction_body :: "Thread \<Rightarrow> nat \<Rightarrow> BuildState \<Rightarrow> nat \<Rightarrow> error + BuildState" where
  "mergeFunction_body thread funcIndexToMerge s stackIndex =
     (let row = stackTable thread ! stackIndex;
          funcIndex = stackFunc thread stackIndex;
          newStackPrefix =
            (case oldStackToNewStack s (prefix row) of None \<Rightarrow> None | Some p \<Rightarrow> p)
      in if funcIndex = Some funcIndexToMerge
         then Inr (s\<lparr>oldStackToNewStack :=
                       (oldStackToNewStack s)(Some stackIndex \<mapsto> newStackPrefix)\<rparr>)
         else Inr (s\<lparr>newStackTable := newStackTable s @
                       [\<lparr>prefix = newStackPrefix, frame = frame row,
                         category = category row, subcategory = subcategory row\<rparr>],
                     oldStackToNewStack :=
                       (oldStackToNewStack s)
                         (Some stackIndex \<mapsto> Some (length (newStackTable s)))\<rparr>))"

definition mergeFunction :: "Thread \<Rightarrow> nat \<Rightarrow> error + Thread" where
  "mergeFunction thread funcIndexToMerge =
     (case forE [0..<length (stackTable thread)] (mergeFunction_body thread funcIndexToMerge)
             emptyBuildState of
        Inl e \<Rightarrow> Inl e
      | Inr s \<Rightarrow>
          updateThreadStacks thread (newStackTable s)
            (getMapStackUpdater (oldStackToNewStack s)))"

subsection \<open>focus-function\<close>

definition focusFunction_body :: "Thread \<Rightarrow> nat \<Rightarrow> BuildState \<Rightarrow> nat \<Rightarrow> error + BuildState" where
  "focusFunction_body thread funcIndexToFocus s stackIndex =
     (let row = stackTable thread ! stackIndex;
          funcIndex = stackFunc thread stackIndex;
          matchesFocusFunc = (funcIndex = Some funcIndexToFocus)
      in case oldStackToNewStack s (prefix row) of
           None \<Rightarrow> Inl PrefixMapsToUndefined
         | Some newPrefix \<Rightarrow>
             if newPrefix \<noteq> None \<or> matchesFocusFunc
             then Inr (s\<lparr>newStackTable := newStackTable s @
                           [\<lparr>prefix = newPrefix, frame = frame row,
                             category = category row, subcategory = subcategory row\<rparr>],
                         oldStackToNewStack :=
                           (oldStackToNewStack s)
                             (Some stackIndex \<mapsto> Some (length (newStackTable s)))\<rparr>)
             else Inr (s\<lparr>oldStackToNewStack :=
                           (oldStackToNewStack s)(Some stackIndex \<mapsto> None)\<rparr>))"

definition focusFunction :: "Thread \<Rightarrow> nat \<Rightarrow> error + Thread" where
  "focusFunction thread funcIndexToFocus =
     (case forE [0..<length (stackTable thread)] (focusFunction_body thread funcIndexToFocus)
             emptyBuildState of
        Inl e \<Rightarrow> Inl e
      | Inr s \<Rightarrow>
          updateThreadStacks thread (newStackTable s)
            (getMapStackUpdater (oldStackToNewStack s)))"

subsection \<open>collapse-direct-recursion\<close>

record CollapseDirectRecursionState = BuildState +
  recursiveStacks :: "nat option set"

definition collapseDirectRecursion_body ::
  "Thread \<Rightarrow> nat \<Rightarrow> ImplementationFilter \<Rightarrow> CollapseDirectRecursionState \<Rightarrow> nat
     \<Rightarrow> error + CollapseDirectRecursionState" where
  "collapseDirectRecursion_body thread funcToCollapse implementation s stackIndex =
     (let row = stackTable thread ! stackIndex;
          funcIndex = stackFunc thread stackIndex
      in case (if prefix row \<in> recursiveStacks s
               then (if Some funcToCollapse = funcIndex then Inr True
                     else (case FUNC_MATCHES implementation thread funcIndex of
                             Inl e \<Rightarrow> Inl e
                           | Inr matches \<Rightarrow> Inr (\<not> matches)))
               else Inr False) of
           Inl e \<Rightarrow> Inl e
         | Inr True \<Rightarrow>
             (case oldStackToNewStack s (prefix row) of
                None \<Rightarrow> Inl NewPrefixStackIndexUndefined
              | Some newPrefixStackIndex \<Rightarrow>
                  Inr (s\<lparr>oldStackToNewStack :=
                           (oldStackToNewStack s)(Some stackIndex \<mapsto> newPrefixStackIndex),
                         recursiveStacks := insert (Some stackIndex) (recursiveStacks s)\<rparr>))
         | Inr False \<Rightarrow>
             (case oldStackToNewStack s (prefix row) of
                None \<Rightarrow> Inl NewStackPrefixUndefined
              | Some newStackPrefix \<Rightarrow>
                  Inr (s\<lparr>newStackTable := newStackTable s @
                           [\<lparr>prefix = newStackPrefix, frame = frame row,
                             category = category row, subcategory = subcategory row\<rparr>],
                         oldStackToNewStack :=
                           (oldStackToNewStack s)
                             (Some stackIndex \<mapsto> Some (length (newStackTable s))),
                         recursiveStacks :=
                           (if Some funcToCollapse = funcIndex
                            then insert (Some stackIndex) (recursiveStacks s)
                            else recursiveStacks s)\<rparr>)))"

definition collapseDirectRecursion ::
  "Thread \<Rightarrow> nat \<Rightarrow> ImplementationFilter \<Rightarrow> error + Thread" where
  "collapseDirectRecursion thread funcToCollapse implementation =
     (case forE [0..<length (stackTable thread)]
             (collapseDirectRecursion_body thread funcToCollapse implementation)
             \<lparr>newStackTable = [], oldStackToNewStack = [None \<mapsto> None],
              recursiveStacks = {}\<rparr> of
        Inl e \<Rightarrow> Inl e
      | Inr s \<Rightarrow>
          updateThreadStacks thread (newStackTable s)
            (getMapStackUpdater (oldStackToNewStack s)))"

subsection \<open>Conflicting categories\<close>

text \<open>
  The lines that \<^verbatim>\<open>collapseResource\<close> and \<^verbatim>\<open>collapseFunctionSubtree\<close>
  share: when the category of the row \<open>target\<close> of the new table differs from the
  given one, the row gets the default category and subcategory 0; when only the
  subcategory differs, the row gets subcategory 0. The row exists wherever the two
  transforms reach these lines (lemma \<open>collapsed_target_in_table\<close> below); on an
  index outside the table, where the source would write past the end of the columns, the
  model leaves the table as it is.
\<close>

definition resolveCategoryConflict ::
  "StackTable \<Rightarrow> nat \<Rightarrow> nat \<Rightarrow> nat \<Rightarrow> nat \<Rightarrow> StackTable" where
  "resolveCategoryConflict tbl target category' subcategory' defaultCategory =
     (case nth_opt tbl target of
        None \<Rightarrow> tbl
      | Some row \<Rightarrow>
          if category row \<noteq> category'
          then tbl[target := row\<lparr>category := defaultCategory, subcategory := 0\<rparr>]
          else if subcategory row \<noteq> subcategory'
          then tbl[target := row\<lparr>subcategory := 0\<rparr>]
          else tbl)"

subsection \<open>collapse-function-subtree\<close>

record CollapseFunctionSubtreeState = BuildState +
  collapsedStacks :: "nat option set"

definition collapseFunctionSubtree_body ::
  "Thread \<Rightarrow> nat \<Rightarrow> nat \<Rightarrow> CollapseFunctionSubtreeState \<Rightarrow> nat
     \<Rightarrow> error + CollapseFunctionSubtreeState" where
  "collapseFunctionSubtree_body thread funcToCollapse defaultCategory s stackIndex =
     (let row = stackTable thread ! stackIndex in
      if prefix row \<in> collapsedStacks s
      then
        (case oldStackToNewStack s (prefix row) of
           None \<Rightarrow> Inl NewPrefixStackIndexUndefined
         | Some newPrefixStackIndex \<Rightarrow>
             Inr (s\<lparr>oldStackToNewStack :=
                      (oldStackToNewStack s)(Some stackIndex \<mapsto> newPrefixStackIndex),
                    collapsedStacks := insert (Some stackIndex) (collapsedStacks s),
                    newStackTable :=
                      (case newPrefixStackIndex of
                         None \<Rightarrow> newStackTable s
                       | Some target \<Rightarrow>
                           resolveCategoryConflict (newStackTable s) target
                             (category row) (subcategory row) defaultCategory)\<rparr>))
      else
        (case oldStackToNewStack s (prefix row) of
           None \<Rightarrow> Inl NewStackPrefixUndefined
         | Some newStackPrefix \<Rightarrow>
             (let funcIndex = stackFunc thread stackIndex
              in Inr (s\<lparr>newStackTable := newStackTable s @
                          [\<lparr>prefix = newStackPrefix, frame = frame row,
                            category = category row, subcategory = subcategory row\<rparr>],
                        oldStackToNewStack :=
                          (oldStackToNewStack s)
                            (Some stackIndex \<mapsto> Some (length (newStackTable s))),
                        collapsedStacks :=
                          (if Some funcToCollapse = funcIndex
                           then insert (Some stackIndex) (collapsedStacks s)
                           else collapsedStacks s)\<rparr>))))"

definition collapseFunctionSubtree :: "Thread \<Rightarrow> nat \<Rightarrow> nat \<Rightarrow> error + Thread" where
  "collapseFunctionSubtree thread funcToCollapse defaultCategory =
     (case forE [0..<length (stackTable thread)]
             (collapseFunctionSubtree_body thread funcToCollapse defaultCategory)
             \<lparr>newStackTable = [], oldStackToNewStack = [None \<mapsto> None],
              collapsedStacks = {}\<rparr> of
        Inl e \<Rightarrow> Inl e
      | Inr s \<Rightarrow>
          updateThreadStacks thread (newStackTable s)
            (getMapStackUpdater (oldStackToNewStack s)))"

subsection \<open>focus-subtree\<close>

text \<open>
  \<^verbatim>\<open>stackMatches\<close> is an \<^verbatim>\<open>Int32Array\<close> of the length of the stack table:
  it starts with zeros, and a store of \<^verbatim>\<open>undefined\<close> or \<^verbatim>\<open>NaN\<close>
  (\<open>None\<close>) writes 0. The field of the state is called \<open>stackMatchesUpTo\<close>,
  after the variable that is stored into the array at the end of each round, because
  the name \<open>stackMatches\<close> is the one of the array of merge-call-node.
\<close>

record FocusSubtreeState = BuildState +
  stackMatchesUpTo :: "int list"

definition focusSubtree_body ::
  "Thread \<Rightarrow> nat list \<Rightarrow> ImplementationFilter \<Rightarrow> FocusSubtreeState \<Rightarrow> nat
     \<Rightarrow> error + FocusSubtreeState" where
  "focusSubtree_body thread callNodePath implementation s stackIndex =
     (let prefixDepth = int (length callNodePath);
          row = stackTable thread ! stackIndex;
          prefixMatchesUpTo =
            (case prefix row of None \<Rightarrow> Some 0 | Some p \<Rightarrow> nth_opt (stackMatchesUpTo s) p);
          store = (\<lambda>s' matchesUpTo.
            s'\<lparr>stackMatchesUpTo :=
                 (stackMatchesUpTo s)
                   [stackIndex := (case matchesUpTo of None \<Rightarrow> 0 | Some m \<Rightarrow> m)]\<rparr>);
          emit = (\<lambda>matchesUpTo.
            if matchesUpTo = Some prefixDepth
            then store
                   (s\<lparr>newStackTable := newStackTable s @
                        [\<lparr>prefix = (case oldStackToNewStack s (prefix row) of
                                      None \<Rightarrow> None
                                    | Some p \<Rightarrow> p),
                          frame = frame row, category = category row,
                          subcategory = subcategory row\<rparr>],
                      oldStackToNewStack :=
                        (oldStackToNewStack s)
                          (Some stackIndex \<mapsto> Some (length (newStackTable s)))\<rparr>)
                   matchesUpTo
            else store s matchesUpTo)
      in if prefixMatchesUpTo \<noteq> Some (- 1)
         then
           (if prefixMatchesUpTo = Some prefixDepth then Inr (emit (Some prefixDepth))
            else
              (let funcIndex = stackFunc thread stackIndex in
               if funcIndex = nth_int callNodePath prefixMatchesUpTo
               then Inr (emit (map_option (\<lambda>m. m + 1) prefixMatchesUpTo))
               else
                 (case FUNC_MATCHES implementation thread funcIndex of
                    Inl e \<Rightarrow> Inl e
                  | Inr matches \<Rightarrow>
                      if \<not> matches then Inr (emit prefixMatchesUpTo)
                      else Inr (emit (Some (- 1))))))
         else Inr (store s (Some (- 1))))"

definition focusSubtree :: "Thread \<Rightarrow> nat list \<Rightarrow> ImplementationFilter \<Rightarrow> error + Thread" where
  "focusSubtree thread callNodePath implementation =
     (case forE [0..<length (stackTable thread)]
             (focusSubtree_body thread callNodePath implementation)
             \<lparr>newStackTable = [], oldStackToNewStack = [None \<mapsto> None],
              stackMatchesUpTo = replicate (length (stackTable thread)) 0\<rparr> of
        Inl e \<Rightarrow> Inl e
      | Inr s \<Rightarrow>
          updateThreadStacks thread (newStackTable s)
            (\<lambda>oldStack.
               case oldStack of
                 None \<Rightarrow> Inr None
               | Some old \<Rightarrow>
                   if nth_opt (stackMatchesUpTo s) old \<noteq> Some (int (length callNodePath))
                   then Inr None
                   else (case oldStackToNewStack s (Some old) of
                           None \<Rightarrow> Inl ConvertedStackUndefined
                         | Some newStack \<Rightarrow> Inr newStack)))"

subsection \<open>focus-subtree, inverted\<close>

text \<open>
  The loop variable of \<^verbatim>\<open>convertStack\<close> is a stack index, null, or
  \<^verbatim>\<open>undefined\<close>, which is what the prefix column yields outside the table.
\<close>

datatype StackRef = Undefined | Null | Index nat

definition refOfStack :: "nat option \<Rightarrow> StackRef" where
  "refOfStack oldStack = (case oldStack of None \<Rightarrow> Null | Some s \<Rightarrow> Index s)"

definition refFunc :: "Thread \<Rightarrow> StackRef \<Rightarrow> nat option" where
  "refFunc thread r =
     (case r of
        Index s \<Rightarrow> if s < length (stackTable thread) then stackFunc thread s else None
      | _ \<Rightarrow> None)"

definition refPrefix :: "Thread \<Rightarrow> StackRef \<Rightarrow> StackRef" where
  "refPrefix thread r =
     (case r of
        Index s \<Rightarrow>
          if s < length (stackTable thread)
          then refOfStack (prefix (stackTable thread ! s))
          else Undefined
      | _ \<Rightarrow> Undefined)"

text \<open>
  The loop of \<^verbatim>\<open>convertStack\<close>, from the stack \<open>r\<close> with
  \<^verbatim>\<open>matchesUpToDepth\<close> as given. It need not end: the result \<open>None\<close> is a
  loop that runs forever.
\<close>

partial_function (option) convertStack_loop ::
  "Thread \<Rightarrow> nat list \<Rightarrow> ImplementationFilter \<Rightarrow> StackRef \<Rightarrow> nat
     \<Rightarrow> (error + nat option) option" where
  "convertStack_loop thread postfixCallNodePath implementation r matchesUpToDepth =
     (if r = Null then Some (Inr None)
      else
        (let funcIndex = refFunc thread r in
         if funcIndex = nth_opt postfixCallNodePath matchesUpToDepth
         then
           (if matchesUpToDepth + 1 = length postfixCallNodePath
            then Some (Inr (case r of Index s \<Rightarrow> Some s | _ \<Rightarrow> None))
            else convertStack_loop thread postfixCallNodePath implementation
                   (refPrefix thread r) (matchesUpToDepth + 1))
         else
           (case FUNC_MATCHES implementation thread funcIndex of
              Inl e \<Rightarrow> Some (Inl e)
            | Inr matches \<Rightarrow>
                if matches then Some (Inr None)
                else convertStack_loop thread postfixCallNodePath implementation
                       (refPrefix thread r) matchesUpToDepth)))"

declare convertStack_loop.simps [code]

definition convertStack ::
  "Thread \<Rightarrow> nat list \<Rightarrow> ImplementationFilter \<Rightarrow> nat option \<Rightarrow> error + nat option" where
  "convertStack thread postfixCallNodePath implementation leaf =
     (case convertStack_loop thread postfixCallNodePath implementation (refOfStack leaf) 0 of
        None \<Rightarrow> Inl DoesNotReturn
      | Some result \<Rightarrow> result)"

text \<open>
  The source keeps the results of \<^verbatim>\<open>convertStack\<close> in a map, seeded with null
  for null, and looks a stack up there before it converts it; \<^verbatim>\<open>convertStack\<close>
  reads nothing that changes, and gives null for null, so the model calls it each time.
\<close>

definition focusInvertedSubtree ::
  "Thread \<Rightarrow> nat list \<Rightarrow> ImplementationFilter \<Rightarrow> error + Thread" where
  "focusInvertedSubtree thread postfixCallNodePath implementation =
     updateThreadStacks thread (stackTable thread)
       (convertStack thread postfixCallNodePath implementation)"

subsection \<open>collapse-resource\<close>

text \<open>
  Modelled from the spec: \<^verbatim>\<open>shallowCloneFrameTable\<close> and
  \<^verbatim>\<open>shallowCloneFuncTable\<close> of \<^verbatim>\<open>data-structures.js\<close>, which is not
  among the sources. A shallow clone has the columns of the table it was made from.
\<close>

definition shallowCloneFrameTable :: "FrameTable \<Rightarrow> FrameTable" where
  "shallowCloneFrameTable tbl = tbl"

definition shallowCloneFuncTable :: "FuncTable \<Rightarrow> FuncTable" where
  "shallowCloneFuncTable tbl = tbl"

text \<open>
  The state of the loop. The set \<^verbatim>\<open>collapsedStacks\<close> of the source is the field
  \<open>collapsedResourceStacks\<close>, the name \<open>collapsedStacks\<close> being the one of the
  set of collapse-function-subtree.
\<close>

record CollapseResourceState = BuildState +
  prefixStackToCollapsedStack :: "nat option \<rightharpoonup> nat option"
  collapsedResourceStacks :: "nat option set"
  collapsedFrameIndex :: "nat option"
  collapsedFuncIndex :: "nat option"
  newFrameTable :: FrameTable
  newFuncTable :: FuncTable

text \<open>
  The new frame and the new func, made at the first stack of the resource. Of the func
  table the source pushes \<^verbatim>\<open>isJS\<close>, \<^verbatim>\<open>name\<close>, \<^verbatim>\<open>resource\<close> and
  three columns that the model does not keep, and leaves
  \<^verbatim>\<open>relevantForJS\<close> as it is. A pushed \<^verbatim>\<open>undefined\<close> in
  \<^verbatim>\<open>isJS\<close> is \<open>False\<close>, as every reader of the column takes it. The
  pushed resource is the one of the func, which is the collapsed resource here.
\<close>

definition createCollapsedFrameAndFunc ::
  "Thread \<Rightarrow> nat \<Rightarrow> nat option \<Rightarrow> CollapseResourceState \<Rightarrow> CollapseResourceState" where
  "createCollapsedFrameAndFunc thread resourceIndexToCollapse funcIndex s =
     (let frameIndex' = frameTableLength (newFrameTable s);
          funcIndex' = funcTableLength (newFuncTable s);
          resourceNameIndex =
            nth_opt (resourceName (resourceTable thread)) resourceIndexToCollapse
      in s\<lparr>collapsedFrameIndex := Some frameIndex',
            collapsedFuncIndex := Some funcIndex',
            newFrameTable :=
              (newFrameTable s)\<lparr>frameTableLength := frameIndex' + 1,
                                 func := func (newFrameTable s) @ [funcIndex']\<rparr>,
            newFuncTable :=
              (newFuncTable s)\<lparr>funcTableLength := funcIndex' + 1,
                                isJS := isJS (newFuncTable s) @
                                  [funcColumn (isJS (funcTable thread)) funcIndex = Some True],
                                name := name (newFuncTable s) @ [resourceNameIndex],
                                resource := resource (newFuncTable s) @
                                  [int resourceIndexToCollapse]\<rparr>\<rparr>)"

definition collapseResource_body ::
  "Thread \<Rightarrow> nat \<Rightarrow> ImplementationFilter \<Rightarrow> nat \<Rightarrow> CollapseResourceState \<Rightarrow> nat
     \<Rightarrow> error + CollapseResourceState" where
  "collapseResource_body thread resourceIndexToCollapse implementation defaultCategory s
       stackIndex =
     (let row = stackTable thread ! stackIndex;
          funcIndex = stackFunc thread stackIndex;
          resourceIndex = funcColumn (resource (funcTable thread)) funcIndex
      in case oldStackToNewStack s (prefix row) of
           None \<Rightarrow> Inl NewStackPrefixUndefined
         | Some newStackPrefix \<Rightarrow>
             if resourceIndex = Some (int resourceIndexToCollapse)
             then
               (if newStackPrefix \<notin> collapsedResourceStacks s
                then
                  (case prefixStackToCollapsedStack s (prefix row) of
                     None \<Rightarrow>
                       (let newStackIndex = length (newStackTable s);
                            s1 = (if collapsedFrameIndex s = None
                                  then createCollapsedFrameAndFunc thread
                                         resourceIndexToCollapse funcIndex s
                                  else s)
                        in Inr (s1\<lparr>collapsedResourceStacks :=
                                     insert (Some newStackIndex) (collapsedResourceStacks s),
                                   oldStackToNewStack :=
                                     (oldStackToNewStack s)
                                       (Some stackIndex \<mapsto> Some newStackIndex),
                                   prefixStackToCollapsedStack :=
                                     (prefixStackToCollapsedStack s)
                                       (prefix row \<mapsto> Some newStackIndex),
                                   newStackTable := newStackTable s @
                                     [\<lparr>prefix = newStackPrefix,
                                       frame = (case collapsedFrameIndex s1 of
                                                  None \<Rightarrow> 0
                                                | Some f \<Rightarrow> f),
                                       category = category row,
                                       subcategory = subcategory row\<rparr>]\<rparr>))
                   | Some None \<Rightarrow> Inl ExistingCollapsedStackNull
                   | Some (Some existingCollapsedStack) \<Rightarrow>
                       Inr (s\<lparr>oldStackToNewStack :=
                                (oldStackToNewStack s)
                                  (Some stackIndex \<mapsto> Some existingCollapsedStack),
                              newStackTable :=
                                resolveCategoryConflict (newStackTable s)
                                  existingCollapsedStack (category row) (subcategory row)
                                  defaultCategory\<rparr>))
                else Inr (s\<lparr>oldStackToNewStack :=
                              (oldStackToNewStack s)(Some stackIndex \<mapsto> newStackPrefix)\<rparr>))
             else
               (case FUNC_MATCHES implementation thread funcIndex of
                  Inl e \<Rightarrow> Inl e
                | Inr matches \<Rightarrow>
                    (let prefixResource =
                           (case newStackPrefix of
                              None \<Rightarrow> None
                            | Some p \<Rightarrow>
                                funcColumn (resource (newFuncTable s))
                                  (funcColumn (func (newFrameTable s))
                                     (map_option frame (nth_opt (newStackTable s) p))))
                     in if \<not> matches \<and> newStackPrefix \<noteq> None \<and>
                           prefixResource = Some (int resourceIndexToCollapse)
                        then Inr (s\<lparr>oldStackToNewStack :=
                                      (oldStackToNewStack s)
                                        (Some stackIndex \<mapsto> newStackPrefix)\<rparr>)
                        else Inr (s\<lparr>newStackTable := newStackTable s @
                                      [\<lparr>prefix = newStackPrefix, frame = frame row,
                                        category = category row,
                                        subcategory = subcategory row\<rparr>],
                                    oldStackToNewStack :=
                                      (oldStackToNewStack s)
                                        (Some stackIndex \<mapsto>
                                           Some (length (newStackTable s)))\<rparr>))))"

definition collapseResource_loop ::
  "Thread \<Rightarrow> nat \<Rightarrow> ImplementationFilter \<Rightarrow> nat \<Rightarrow> error + CollapseResourceState" where
  "collapseResource_loop thread resourceIndexToCollapse implementation defaultCategory =
     forE [0..<length (stackTable thread)]
       (collapseResource_body thread resourceIndexToCollapse implementation defaultCategory)
       \<lparr>newStackTable = [], oldStackToNewStack = [None \<mapsto> None],
        prefixStackToCollapsedStack = Map.empty, collapsedResourceStacks = {},
        collapsedFrameIndex = None, collapsedFuncIndex = None,
        newFrameTable = shallowCloneFrameTable (frameTable thread),
        newFuncTable = shallowCloneFuncTable (funcTable thread)\<rparr>"

definition collapseResource ::
  "Thread \<Rightarrow> nat \<Rightarrow> ImplementationFilter \<Rightarrow> nat \<Rightarrow> error + Thread" where
  "collapseResource thread resourceIndexToCollapse implementation defaultCategory =
     (case collapseResource_loop thread resourceIndexToCollapse implementation
             defaultCategory of
        Inl e \<Rightarrow> Inl e
      | Inr s \<Rightarrow>
          updateThreadStacks
            (thread\<lparr>frameTable := newFrameTable s, funcTable := newFuncTable s\<rparr>)
            (newStackTable s)
            (getMapStackUpdater (oldStackToNewStack s)))"

section \<open>Applying a transform\<close>

fun applyTransform :: "Thread \<Rightarrow> Transform \<Rightarrow> nat \<Rightarrow> error + Thread" where
  "applyTransform thread (FocusSubtree implementation callNodePath inverted) defaultCategory =
     (if inverted then focusInvertedSubtree thread callNodePath implementation
      else focusSubtree thread callNodePath implementation)"
| "applyTransform thread (MergeCallNode implementation callNodePath) defaultCategory =
     mergeCallNode thread callNodePath implementation"
| "applyTransform thread (MergeFunction funcIndex) defaultCategory =
     mergeFunction thread funcIndex"
| "applyTransform thread (DropFunction funcIndex) defaultCategory =
     dropFunction thread funcIndex"
| "applyTransform thread (FocusFunction funcIndex) defaultCategory =
     focusFunction thread funcIndex"
| "applyTransform thread (CollapseResource resourceIndex collapsedFuncIndex' implementation)
       defaultCategory =
     collapseResource thread resourceIndex implementation defaultCategory"
| "applyTransform thread (CollapseDirectRecursion funcIndex implementation) defaultCategory =
     collapseDirectRecursion thread funcIndex implementation"
| "applyTransform thread (CollapseFunctionSubtree funcIndex) defaultCategory =
     collapseFunctionSubtree thread funcIndex defaultCategory"

section \<open>Transforms on call node paths\<close>

text \<open>\<^verbatim>\<open>_mergeNodeInCallNodePath\<close>, the call node path counterpart of merge-call-node.\<close>

definition callNodePathHasPrefixPath :: "nat list \<Rightarrow> nat list \<Rightarrow> bool" where
  "callNodePathHasPrefixPath prefixPath callNodePath =
     (length prefixPath \<le> length callNodePath \<and>
      list_all (\<lambda>i. nth_opt callNodePath i = Some (prefixPath ! i)) [0..<length prefixPath])"

definition mergeNodeInCallNodePath :: "nat list \<Rightarrow> nat list \<Rightarrow> nat list" where
  "mergeNodeInCallNodePath prefixPath callNodePath =
     (if callNodePathHasPrefixPath prefixPath callNodePath
      then map snd (filter (\<lambda>(i, f). int i \<noteq> int (length prefixPath) - 1)
                      (enumerate 0 callNodePath))
      else callNodePath)"

text \<open>\<^verbatim>\<open>_collapseDirectRecursionInCallNodePath\<close>: the loop, with
  \<^verbatim>\<open>previousFunc\<close> as it stands before the round, and the function.\<close>

fun collapseDirectRecursionInCallNodePath_loop :: "nat \<Rightarrow> nat option \<Rightarrow> nat list \<Rightarrow> nat list" where
  "collapseDirectRecursionInCallNodePath_loop funcIndex previousFunc [] = []"
| "collapseDirectRecursionInCallNodePath_loop funcIndex previousFunc (pathFunc # rest) =
     (if pathFunc \<noteq> funcIndex \<or> Some pathFunc \<noteq> previousFunc
      then pathFunc # collapseDirectRecursionInCallNodePath_loop funcIndex (Some pathFunc) rest
      else collapseDirectRecursionInCallNodePath_loop funcIndex (Some pathFunc) rest)"

definition collapseDirectRecursionInCallNodePath :: "nat \<Rightarrow> nat list \<Rightarrow> nat list" where
  "collapseDirectRecursionInCallNodePath funcIndex callNodePath =
     collapseDirectRecursionInCallNodePath_loop funcIndex None callNodePath"

section \<open>Notions the properties are stated with\<close>

text \<open>
  The ordering invariant of a stack table: the prefix of a row is null or a strictly
  smaller index.
\<close>

definition prefixOrdered :: "StackTable \<Rightarrow> bool" where
  "prefixOrdered st =
     list_all (\<lambda>i. case prefix (st ! i) of None \<Rightarrow> True | Some p \<Rightarrow> p < i) [0..<length st]"

text \<open>A stack reference is null or an index into the table.\<close>

definition validStack :: "StackTable \<Rightarrow> nat option \<Rightarrow> bool" where
  "validStack st oldStack = (case oldStack of None \<Rightarrow> True | Some s \<Rightarrow> s < length st)"

definition optionalStackColumn :: "SamplesLikeTable option \<Rightarrow> nat option list" where
  "optionalStackColumn tbl = (case tbl of None \<Rightarrow> [] | Some t \<Rightarrow> stack t)"

text \<open>Every row of every sample-like table of the thread holds a valid stack.\<close>

definition samplesValid :: "Thread \<Rightarrow> bool" where
  "samplesValid thread =
     list_all (validStack (stackTable thread))
       (stack (samples thread) @ optionalStackColumn (jsAllocations thread)
          @ optionalStackColumn (nativeAllocations thread))"

text \<open>
  The call path of a stack: the funcs of its ancestors from the root down to the stack
  itself, read along the prefix column. A func is \<open>None\<close> where the frame of a stack
  is not in the frame table.
\<close>

function callPath :: "Thread \<Rightarrow> nat \<Rightarrow> nat option list" where
  "callPath thread s =
     (if s < length (stackTable thread)
      then (case prefix (stackTable thread ! s) of
              None \<Rightarrow> []
            | Some p \<Rightarrow> if p < s then callPath thread p else []) @ [stackFunc thread s]
      else [])"
  by pat_completeness auto
termination
  by (relation "measure snd") auto

declare callPath.simps [simp del]

text \<open>The thread with a function applied to the stack column of each sample-like table.\<close>

definition mapThreadStacks :: "(nat option \<Rightarrow> nat option) \<Rightarrow> Thread \<Rightarrow> Thread" where
  "mapThreadStacks g thread =
     thread\<lparr>samples := (samples thread)\<lparr>stack := map g (stack (samples thread))\<rparr>,
            jsAllocations :=
              map_option (\<lambda>tbl. tbl\<lparr>stack := map g (stack tbl)\<rparr>) (jsAllocations thread),
            nativeAllocations :=
              map_option (\<lambda>tbl. tbl\<lparr>stack := map g (stack tbl)\<rparr>) (nativeAllocations thread)\<rparr>"

text \<open>
  What drop-function is to do with one sample: null where the func occurs on the call
  path of the sample's stack, the stack itself otherwise.
\<close>

definition dropsStack :: "Thread \<Rightarrow> nat \<Rightarrow> nat option \<Rightarrow> nat option" where
  "dropsStack thread f oldStack =
     (case oldStack of
        None \<Rightarrow> None
      | Some s \<Rightarrow> if Some f \<in> set (callPath thread s) then None else Some s)"

section \<open>Example threads\<close>

text \<open>
  Four stacks over three funcs: \<open>0\<close>, \<open>0 \<rightarrow> 1\<close>, \<open>0 \<rightarrow> 1 \<rightarrow> 2\<close> and
  \<open>0 \<rightarrow> 2\<close>; frame \<open>i\<close> belongs to func \<open>i\<close>.
\<close>

definition smallThread :: Thread where
  "smallThread =
     \<lparr>samples = \<lparr>stack = [Some 0, Some 2, Some 3, None, Some 1],
                  time = [0, 1, 2, 3, 4], weight = None\<rparr>,
      jsAllocations = Some \<lparr>stack = [Some 3, Some 2], time = [1, 3], weight = Some [8, 16]\<rparr>,
      nativeAllocations = None,
      stackTable =
        [\<lparr>prefix = None, frame = 0, category = 0, subcategory = 0\<rparr>,
         \<lparr>prefix = Some 0, frame = 1, category = 0, subcategory = 0\<rparr>,
         \<lparr>prefix = Some 1, frame = 2, category = 1, subcategory = 0\<rparr>,
         \<lparr>prefix = Some 0, frame = 2, category = 1, subcategory = 0\<rparr>],
      frameTable = \<lparr>func = [0, 1, 2], frameTableLength = 3\<rparr>,
      funcTable = \<lparr>name = [Some 0, Some 1, Some 2], isJS = [False, False, True],
                   relevantForJS = [False, False, False], resource = [0, 0, -1],
                   funcTableLength = 3\<rparr>,
      resourceTable = \<lparr>resourceName = [3]\<rparr>,
      stringTable = [''A'', ''B'', ''C'', ''libxul'']\<rparr>"

text \<open>
  What \<^verbatim>\<open>applyTransform\<close> returns on this thread for merge-call-node at the
  path \<open>0 \<rightarrow> 1\<close>, and for collapse-resource of resource \<open>0\<close> under the
  \<^verbatim>\<open>cpp\<close> filter.
\<close>

definition smallThreadMerged :: Thread where
  "smallThreadMerged =
     smallThread\<lparr>samples := \<lparr>stack = [Some 0, Some 1, Some 2, None, Some 0],
                                time = [0, 1, 2, 3, 4], weight = None\<rparr>,
                   jsAllocations := Some \<lparr>stack = [Some 2, Some 1], time = [1, 3],
                                           weight = Some [8, 16]\<rparr>,
                   stackTable :=
                     [\<lparr>prefix = None, frame = 0, category = 0, subcategory = 0\<rparr>,
                      \<lparr>prefix = Some 0, frame = 2, category = 1, subcategory = 0\<rparr>,
                      \<lparr>prefix = Some 0, frame = 2, category = 1, subcategory = 0\<rparr>]\<rparr>"

definition smallThreadCollapsed :: Thread where
  "smallThreadCollapsed =
     smallThread\<lparr>samples := \<lparr>stack = [Some 0, Some 0, Some 0, None, Some 0],
                                time = [0, 1, 2, 3, 4], weight = None\<rparr>,
                   jsAllocations := Some \<lparr>stack = [Some 0, Some 0], time = [1, 3],
                                           weight = Some [8, 16]\<rparr>,
                   stackTable := [\<lparr>prefix = None, frame = 3, category = 0, subcategory = 0\<rparr>],
                   frameTable := \<lparr>func = [0, 1, 2, 3], frameTableLength = 4\<rparr>,
                   funcTable := \<lparr>name = [Some 0, Some 1, Some 2, Some 3],
                                  isJS = [False, False, True, False],
                                  relevantForJS = [False, False, False],
                                  resource = [0, 0, - 1, 0], funcTableLength = 4\<rparr>\<rparr>"


text \<open>
  Three stacks over the funcs \<open>0\<close> and \<open>1\<close>: \<open>0\<close>, \<open>0 \<rightarrow> 1\<close> and
  \<open>0 \<rightarrow> 1 \<rightarrow> 1\<close>, with one sample on each.
\<close>

definition recursiveThread :: Thread where
  "recursiveThread =
     \<lparr>samples = \<lparr>stack = [Some 0, Some 1, Some 2], time = [0, 1, 2], weight = None\<rparr>,
      jsAllocations = None,
      nativeAllocations = None,
      stackTable =
        [\<lparr>prefix = None, frame = 0, category = 0, subcategory = 0\<rparr>,
         \<lparr>prefix = Some 0, frame = 1, category = 0, subcategory = 0\<rparr>,
         \<lparr>prefix = Some 1, frame = 1, category = 0, subcategory = 0\<rparr>],
      frameTable = \<lparr>func = [0, 1], frameTableLength = 2\<rparr>,
      funcTable = \<lparr>name = [Some 0, Some 1], isJS = [False, False],
                   relevantForJS = [False, False], resource = [- 1, - 1],
                   funcTableLength = 2\<rparr>,
      resourceTable = \<lparr>resourceName = []\<rparr>,
      stringTable = [''A'', ''B'']\<rparr>"

section \<open>Runs of a func on a call path\<close>

text \<open>
  What collapse-direct-recursion is to do with a call path, in the words of its
  description: every run of consecutive occurrences of the func is collapsed down to its
  first occurrence, and the entries that the implementation filter leaves out (\<open>skip\<close>)
  do not break a run but vanish into it. Occurrences that are not adjacent stay separate.
\<close>

function collapseRunsOf :: "'a \<Rightarrow> ('a \<Rightarrow> bool) \<Rightarrow> 'a list \<Rightarrow> 'a list" where
  "collapseRunsOf a skip [] = []"
| "collapseRunsOf a skip (x # xs) =
     x # (if x = a then collapseRunsOf a skip (dropWhile (\<lambda>y. y = a \<or> skip y) xs)
          else collapseRunsOf a skip xs)"
  by pat_completeness auto
termination
  by (relation "measure (\<lambda>(a, skip, xs). length xs)")
     (auto simp: length_dropWhile_le less_Suc_eq_le)

text \<open>A func that the implementation filter leaves out of the call tree.\<close>

definition filteredOut :: "ImplementationFilter \<Rightarrow> Thread \<Rightarrow> nat option \<Rightarrow> bool" where
  "filteredOut implementation thread funcIndex =
     (FUNC_MATCHES implementation thread funcIndex = Inr False)"

text \<open>
  The same, read from the left with a state: whether the path so far ends inside a run,
  and the collapsed path so far.
\<close>

definition runStep ::
  "'a \<Rightarrow> ('a \<Rightarrow> bool) \<Rightarrow> bool \<times> 'a list \<Rightarrow> 'a \<Rightarrow> bool \<times> 'a list" where
  "runStep a skip st x =
     (if fst st \<and> (x = a \<or> skip x) then (True, snd st) else (x = a, snd st @ [x]))"

text \<open>
  A chain of six stacks with the funcs \<open>0, 0, 0, 1, 0, 0\<close> from the root down, with a
  sample at the deepest stack and one in the middle, and what
  \<^verbatim>\<open>collapseDirectRecursion\<close> of func \<open>0\<close> returns for it.
\<close>

definition chainThread :: Thread where
  "chainThread =
     \<lparr>samples = \<lparr>stack = [Some 5, Some 2, None], time = [0, 1, 2], weight = None\<rparr>,
      jsAllocations = None,
      nativeAllocations = None,
      stackTable =
        [\<lparr>prefix = None, frame = 0, category = 0, subcategory = 0\<rparr>,
         \<lparr>prefix = Some 0, frame = 0, category = 0, subcategory = 0\<rparr>,
         \<lparr>prefix = Some 1, frame = 0, category = 0, subcategory = 0\<rparr>,
         \<lparr>prefix = Some 2, frame = 1, category = 0, subcategory = 0\<rparr>,
         \<lparr>prefix = Some 3, frame = 0, category = 0, subcategory = 0\<rparr>,
         \<lparr>prefix = Some 4, frame = 0, category = 0, subcategory = 0\<rparr>],
      frameTable = \<lparr>func = [0, 1], frameTableLength = 2\<rparr>,
      funcTable = \<lparr>name = [Some 0, Some 1], isJS = [False, False],
                   relevantForJS = [False, False], resource = [- 1, - 1],
                   funcTableLength = 2\<rparr>,
      resourceTable = \<lparr>resourceName = []\<rparr>,
      stringTable = [''A'', ''B'']\<rparr>"

definition chainThreadCollapsed :: Thread where
  "chainThreadCollapsed =
     chainThread
       \<lparr>samples := \<lparr>stack = [Some 2, Some 0, None], time = [0, 1, 2], weight = None\<rparr>,
        stackTable :=
          [\<lparr>prefix = None, frame = 0, category = 0, subcategory = 0\<rparr>,
           \<lparr>prefix = Some 0, frame = 1, category = 0, subcategory = 0\<rparr>,
           \<lparr>prefix = Some 1, frame = 0, category = 0, subcategory = 0\<rparr>]\<rparr>"

text \<open>
  A root stack and two children of it, all three of funcs of resource \<open>0\<close>, with the
  categories \<open>1\<close>, \<open>2\<close> and \<open>3\<close>, and what \<^verbatim>\<open>collapseResource\<close> of
  resource \<open>0\<close> with the default category \<open>9\<close> returns for it.
\<close>

definition siblingThread :: Thread where
  "siblingThread =
     \<lparr>samples = \<lparr>stack = [Some 0, Some 1, Some 2], time = [0, 1, 2], weight = None\<rparr>,
      jsAllocations = None,
      nativeAllocations = None,
      stackTable =
        [\<lparr>prefix = None, frame = 0, category = 1, subcategory = 0\<rparr>,
         \<lparr>prefix = Some 0, frame = 1, category = 2, subcategory = 0\<rparr>,
         \<lparr>prefix = Some 0, frame = 2, category = 3, subcategory = 0\<rparr>],
      frameTable = \<lparr>func = [0, 1, 2], frameTableLength = 3\<rparr>,
      funcTable = \<lparr>name = [Some 0, Some 1, Some 2], isJS = [False, False, False],
                   relevantForJS = [False, False, False], resource = [0, 0, 0],
                   funcTableLength = 3\<rparr>,
      resourceTable = \<lparr>resourceName = [3]\<rparr>,
      stringTable = [''f0'', ''f1'', ''f2'', ''Lib1'']\<rparr>"

definition siblingThreadCollapsed :: Thread where
  "siblingThreadCollapsed =
     siblingThread
       \<lparr>samples := \<lparr>stack = [Some 0, Some 0, Some 0], time = [0, 1, 2], weight = None\<rparr>,
        stackTable := [\<lparr>prefix = None, frame = 3, category = 1, subcategory = 0\<rparr>],
        frameTable := \<lparr>func = [0, 1, 2, 3], frameTableLength = 4\<rparr>,
        funcTable := \<lparr>name = [Some 0, Some 1, Some 2, Some 3],
                       isJS = [False, False, False, False],
                       relevantForJS = [False, False, False],
                       resource = [0, 0, 0, 0], funcTableLength = 4\<rparr>\<rparr>"

text \<open>
  Two root stacks of funcs of resource \<open>0\<close> with the categories \<open>1\<close> and \<open>2\<close>,
  and a third with the func of another resource.
\<close>

definition rootsThread :: Thread where
  "rootsThread =
     \<lparr>samples = \<lparr>stack = [Some 0, Some 1, Some 2], time = [0, 1, 2], weight = None\<rparr>,
      jsAllocations = None,
      nativeAllocations = None,
      stackTable =
        [\<lparr>prefix = None, frame = 0, category = 1, subcategory = 4\<rparr>,
         \<lparr>prefix = None, frame = 1, category = 2, subcategory = 5\<rparr>,
         \<lparr>prefix = None, frame = 2, category = 3, subcategory = 6\<rparr>],
      frameTable = \<lparr>func = [0, 1, 2], frameTableLength = 3\<rparr>,
      funcTable = \<lparr>name = [Some 0, Some 1, Some 2], isJS = [False, False, False],
                   relevantForJS = [False, False, False], resource = [0, 0, - 1],
                   funcTableLength = 3\<rparr>,
      resourceTable = \<lparr>resourceName = [3]\<rparr>,
      stringTable = [''f0'', ''f1'', ''f2'', ''Lib1'']\<rparr>"

definition rootsThreadCollapsed :: Thread where
  "rootsThreadCollapsed =
     rootsThread
       \<lparr>samples := \<lparr>stack = [Some 0, Some 0, Some 1], time = [0, 1, 2], weight = None\<rparr>,
        stackTable := [\<lparr>prefix = None, frame = 3, category = 9, subcategory = 0\<rparr>,
                       \<lparr>prefix = None, frame = 2, category = 3, subcategory = 6\<rparr>],
        frameTable := \<lparr>func = [0, 1, 2, 3], frameTableLength = 4\<rparr>,
        funcTable := \<lparr>name = [Some 0, Some 1, Some 2, Some 3],
                       isJS = [False, False, False, False],
                       relevantForJS = [False, False, False],
                       resource = [0, 0, - 1, 0], funcTableLength = 4\<rparr>\<rparr>"

section \<open>Notions for collapse-resource\<close>

text \<open>The resource of the func of a stack, undefined where the func is.\<close>

definition stackResource :: "Thread \<Rightarrow> nat \<Rightarrow> int option" where
  "stackResource thread k = funcColumn (resource (funcTable thread)) (stackFunc thread k)"

text \<open>
  The category of a collapsed node is reconciled with an old stack merged into it: the
  node has the category of the stack, and its subcategory or 0, or it has the default
  category and subcategory 0.
\<close>

definition categoriesReconciled :: "Stack \<Rightarrow> Stack \<Rightarrow> nat \<Rightarrow> bool" where
  "categoriesReconciled node old defaultCategory \<longleftrightarrow>
     (category node = category old \<and>
        (subcategory node = subcategory old \<or> subcategory node = 0)) \<or>
     (category node = defaultCategory \<and> subcategory node = 0)"

text \<open>
  The frame and func tables after the one new frame and the one new func, named after
  the resource, were pushed.
\<close>

definition tablesExtended :: "Thread \<Rightarrow> nat \<Rightarrow> CollapseResourceState \<Rightarrow> bool" where
  "tablesExtended thread r s \<longleftrightarrow>
     newFrameTable s =
       (frameTable thread)
         \<lparr>frameTableLength := frameTableLength (frameTable thread) + 1,
          func := func (frameTable thread) @ [funcTableLength (funcTable thread)]\<rparr> \<and>
     name (newFuncTable s) =
       name (funcTable thread) @ [nth_opt (resourceName (resourceTable thread)) r] \<and>
     funcTableLength (newFuncTable s) = funcTableLength (funcTable thread) + 1"

text \<open>
  The collapsed nodes: each is a row of the new table with the new frame, the nodes
  recorded for a prefix are collapsed nodes, and the new frame and func exist once the
  index of the collapsed frame is set.
\<close>

definition collapsedNodesInv :: "Thread \<Rightarrow> nat \<Rightarrow> CollapseResourceState \<Rightarrow> bool" where
  "collapsedNodesInv thread r s \<longleftrightarrow>
     None \<notin> collapsedResourceStacks s \<and>
     (\<forall>c. Some c \<in> collapsedResourceStacks s \<longrightarrow>
        c < length (newStackTable s) \<and>
        frame (newStackTable s ! c) = frameTableLength (frameTable thread)) \<and>
     (\<forall>q c. prefixStackToCollapsedStack s q = Some (Some c) \<longrightarrow>
        Some c \<in> collapsedResourceStacks s) \<and>
     (case collapsedFrameIndex s of
        None \<Rightarrow> collapsedResourceStacks s = {} \<and> newFrameTable s = frameTable thread \<and>
                newFuncTable s = funcTable thread
      | Some f \<Rightarrow> f = frameTableLength (frameTable thread) \<and> tablesExtended thread r s)"

text \<open>
  An old stack of the collapsed resource has a collapsed node as its new stack: the new
  stack of its prefix when that is a collapsed node, and otherwise the node recorded for
  its prefix, with which its category is reconciled.
\<close>

definition siblingOK :: "Thread \<Rightarrow> nat \<Rightarrow> CollapseResourceState \<Rightarrow> nat \<Rightarrow> bool" where
  "siblingOK thread defaultCategory s k \<longleftrightarrow>
     (\<exists>c v. oldStackToNewStack s (Some k) = Some (Some c) \<and>
            oldStackToNewStack s (prefix (stackTable thread ! k)) = Some v \<and>
            Some c \<in> collapsedResourceStacks s \<and>
            (if v \<in> collapsedResourceStacks s then v = Some c
             else prefixStackToCollapsedStack s (prefix (stackTable thread ! k)) =
                    Some (Some c) \<and>
                  categoriesReconciled (newStackTable s ! c) (stackTable thread ! k)
                    defaultCategory))"

definition siblingsInv :: "Thread \<Rightarrow> nat \<Rightarrow> nat \<Rightarrow> nat \<Rightarrow> CollapseResourceState \<Rightarrow> bool" where
  "siblingsInv thread r defaultCategory m s \<longleftrightarrow>
     (\<forall>k<m. stackResource thread k = Some (int r) \<longrightarrow> siblingOK thread defaultCategory s k)"

section \<open>Notions the codec properties are stated with\<close>










section \<open>Invariants of the loops that build a stack table\<close>

text \<open>
  The new table is ordered, and the map from old to new stacks holds only indices into
  the new table.
\<close>

definition buildInv :: "'a BuildState_scheme \<Rightarrow> bool" where
  "buildInv s \<longleftrightarrow>
     prefixOrdered (newStackTable s) \<and>
     (\<forall>k v. oldStackToNewStack s k = Some (Some v) \<longrightarrow> v < length (newStackTable s))"

text \<open>The map holds null for null and a value for every stack below \<open>i\<close>.\<close>

definition mapsBelow :: "nat \<Rightarrow> 'a BuildState_scheme \<Rightarrow> bool" where
  "mapsBelow i s \<longleftrightarrow>
     oldStackToNewStack s None = Some None \<and>
     (\<forall>k<i. oldStackToNewStack s (Some k) \<noteq> None)"

text \<open>
  For \<^verbatim>\<open>collapseResource\<close>, in addition: the collapsed stack recorded for a
  prefix is never null, and is an index into the new table.
\<close>

definition collapseResourceInv :: "CollapseResourceState \<Rightarrow> bool" where
  "collapseResourceInv s \<longleftrightarrow>
     buildInv s \<and>
     (\<forall>k. prefixStackToCollapsedStack s k \<noteq> Some None) \<and>
     (\<forall>k e. prefixStackToCollapsedStack s k = Some (Some e) \<longrightarrow>
        e < length (newStackTable s))"

text \<open>The stack columns of the sample-like tables of a thread, one after the other.\<close>

definition allStacks :: "Thread \<Rightarrow> nat option list" where
  "allStacks thread = stack (samples thread) @ optionalStackColumn (jsAllocations thread)
          @ optionalStackColumn (nativeAllocations thread)"

text \<open>
  For \<^verbatim>\<open>focusSubtree\<close>: the array \<^verbatim>\<open>stackMatches\<close> has the length
  of the old table, and a stack below \<open>i\<close> that matched the whole path has a new
  stack.
\<close>

definition focusSubtreeInv :: "nat \<Rightarrow> nat \<Rightarrow> nat \<Rightarrow> FocusSubtreeState \<Rightarrow> bool" where
  "focusSubtreeInv n depth i s \<longleftrightarrow>
     length (stackMatchesUpTo s) = n \<and>
     (\<forall>k<i. stackMatchesUpTo s ! k = int depth \<longrightarrow>
        oldStackToNewStack s (Some k) \<noteq> None \<and> oldStackToNewStack s (Some k) \<noteq> Some None)"


text \<open>
  For \<^verbatim>\<open>collapseDirectRecursion\<close>: the run state of the call path of an old
  stack, and the invariant of the loop: every stack below \<open>i\<close> has a new stack whose
  call path in the new table is the collapsed call path of the old one, and it is in
  \<^verbatim>\<open>recursiveStacks\<close> exactly when its call path ends inside a run.
\<close>

definition runState ::
  "Thread \<Rightarrow> nat \<Rightarrow> ImplementationFilter \<Rightarrow> nat \<Rightarrow> bool \<times> nat option list" where
  "runState thread a implementation k =
     foldl (runStep (Some a) (filteredOut implementation thread)) (False, [])
       (callPath thread k)"

definition collapseDirectRecursionInv ::
  "Thread \<Rightarrow> nat \<Rightarrow> ImplementationFilter \<Rightarrow> nat \<Rightarrow> CollapseDirectRecursionState \<Rightarrow> bool" where
  "collapseDirectRecursionInv thread a implementation i s \<longleftrightarrow>
     buildInv s \<and> oldStackToNewStack s None = Some None \<and> None \<notin> recursiveStacks s \<and>
     (\<forall>k. Some k \<in> recursiveStacks s \<longrightarrow> k < i) \<and>
     (\<forall>k<i. (case oldStackToNewStack s (Some k) of
                 Some (Some j) \<Rightarrow>
                   callPath (thread\<lparr>stackTable := newStackTable s\<rparr>) j =
                     snd (runState thread a implementation k)
               | _ \<Rightarrow> False) \<and>
            (Some k \<in> recursiveStacks s \<longleftrightarrow> fst (runState thread a implementation k)))"

section \<open>Properties of the helpers\<close>

lemma mapE_Inr: "mapE (\<lambda>x. Inr (g x)) xs = Inr (map g xs)"
  by (induction xs) auto

lemma updateStackColumn_Inr:
  "updateStackColumn (\<lambda>x. Inr (g x)) tbl = Inr (tbl\<lparr>stack := map g (stack tbl)\<rparr>)"
  by (simp add: updateStackColumn_def mapE_Inr)

lemma updateOptionalStackColumn_Inr:
  "updateOptionalStackColumn (\<lambda>x. Inr (g x)) tbl =
     Inr (map_option (\<lambda>t. t\<lparr>stack := map g (stack t)\<rparr>) tbl)"
  by (cases tbl) (simp_all add: updateOptionalStackColumn_def updateStackColumn_Inr)

lemma updateThreadStacks_Inr:
  "updateThreadStacks thread st (\<lambda>x. Inr (g x)) =
     Inr ((mapThreadStacks g thread)\<lparr>stackTable := st\<rparr>)"
  by (simp add: updateThreadStacks_def updateStackColumn_Inr updateOptionalStackColumn_Inr
      mapThreadStacks_def)

lemma prefixOrdered_iff:
  "prefixOrdered st \<longleftrightarrow> (\<forall>i<length st. \<forall>p. prefix (st ! i) = Some p \<longrightarrow> p < i)"
  by (auto simp: prefixOrdered_def list_all_iff split: option.splits)

section \<open>drop-function: idempotence and frame\<close>

lemma dropFunction_eq:
  "dropFunction thread f =
     Inr (mapThreadStacks
            (\<lambda>oldStack. case oldStack of
                          None \<Rightarrow> None
                        | Some s \<Rightarrow> if s \<in> dropFunction_stacks thread f then None else Some s)
            thread)"
  unfolding dropFunction_def Let_def
  by (simp add: updateThreadStacks_Inr mapThreadStacks_def)

lemma dropFunction_stacks_cong:
  assumes "stackTable t' = stackTable t" and "frameTable t' = frameTable t"
  shows "dropFunction_stacks t' f = dropFunction_stacks t f"
proof -
  have "dropFunction_body t' f = dropFunction_body t f"
    by (intro ext) (simp add: dropFunction_body_def stackFunc_def assms)
  then show ?thesis by (simp add: dropFunction_stacks_def assms)
qed

lemma mapThreadStacks_idem:
  assumes "\<And>x. g (g x) = g x"
  shows "mapThreadStacks g (mapThreadStacks g t) = mapThreadStacks g t"
  using assms
  by (cases "jsAllocations t"; cases "nativeAllocations t") (simp_all add: mapThreadStacks_def)

text \<open>
  C7. Applying drop-function for a func to the thread that drop-function for the same
  func returned gives that thread again: \<^verbatim>\<open>dropFunction\<close> returns, and a second
  application returns its own argument.
\<close>

theorem dropFunction_idempotent:
  "\<exists>t'. dropFunction thread f = Inr t' \<and> dropFunction t' f = Inr t'"
proof -
  let ?g = "\<lambda>oldStack. case oldStack of
                          None \<Rightarrow> None
                        | Some s \<Rightarrow> if s \<in> dropFunction_stacks thread f then None else Some s"
  let ?t = "mapThreadStacks ?g thread"
  have first: "dropFunction thread f = Inr ?t"
    by (rule dropFunction_eq)
  have same: "dropFunction_stacks ?t f = dropFunction_stacks thread f"
    by (rule dropFunction_stacks_cong) (simp_all add: mapThreadStacks_def)
  have "dropFunction ?t f = Inr (mapThreadStacks ?g ?t)"
    by (simp add: dropFunction_eq same)
  also have "mapThreadStacks ?g ?t = ?t"
    by (rule mapThreadStacks_idem) (simp split: option.splits)
  finally show ?thesis
    using first by blast
qed

lemma callPath_outside: "\<not> s < length (stackTable thread) \<Longrightarrow> callPath thread s = []"
  by (subst callPath.simps) simp

lemma callPath_step:
  "s < length (stackTable thread) \<Longrightarrow>
   callPath thread s =
     (case prefix (stackTable thread ! s) of
        None \<Rightarrow> []
      | Some p \<Rightarrow> if p < s then callPath thread p else []) @ [stackFunc thread s]"
  by (subst callPath.simps) simp

text \<open>
  The array \<^verbatim>\<open>stackContainsFunc\<close> after the first \<open>n\<close> rounds of the loop, on
  an ordered stack table: the stacks below \<open>n\<close> with the func on their call path.
\<close>

lemma dropFunction_fold:
  assumes "prefixOrdered (stackTable thread)" and "n \<le> length (stackTable thread)"
  shows "fold (dropFunction_body thread f) [0..<n] {} =
           {s. s < n \<and> Some f \<in> set (callPath thread s)}"
  using assms(2)
proof (induction n)
  case 0
  then show ?case by simp
next
  case (Suc n)
  then have n: "n < length (stackTable thread)" by simp
  have ih: "fold (dropFunction_body thread f) [0..<n] {} =
           {s. s < n \<and> Some f \<in> set (callPath thread s)}"
    using Suc by simp
  have po: "\<And>p. prefix (stackTable thread ! n) = Some p \<Longrightarrow> p < n"
    using assms(1) n by (simp add: prefixOrdered_iff)
  have "fold (dropFunction_body thread f) [0..<Suc n] {} =
          dropFunction_body thread f n (fold (dropFunction_body thread f) [0..<n] {})"
    by simp
  also have "\<dots> = dropFunction_body thread f n {s. s < n \<and> Some f \<in> set (callPath thread s)}"
    by (simp only: ih)
  also have "\<dots> = {s. s < Suc n \<and> Some f \<in> set (callPath thread s)}"
    using n po
    by (auto simp: dropFunction_body_def Let_def callPath_step[OF n] less_Suc_eq
        split: option.splits)
  finally show ?case .
qed


lemma dropFunction_stacks_eq:
  assumes "prefixOrdered (stackTable thread)"
  shows "dropFunction_stacks thread f = {s. Some f \<in> set (callPath thread s)}"
proof -
  have "dropFunction_stacks thread f =
          {s. s < length (stackTable thread) \<and> Some f \<in> set (callPath thread s)}"
    unfolding dropFunction_stacks_def by (rule dropFunction_fold[OF assms]) simp
  also have "\<dots> = {s. Some f \<in> set (callPath thread s)}"
    using callPath_outside[of _ thread] by fastforce
  finally show ?thesis .
qed

text \<open>
  C8. On a thread whose stack table is ordered, \<^verbatim>\<open>dropFunction\<close> returns the
  thread it was given with nothing changed but the stack columns of the sample-like
  tables: the stack table is the one of the input, a sample whose stack has the func on
  its call path (its own func or an ancestor's) gets null, and every other sample keeps
  its stack.
\<close>

theorem dropFunction_nulls_matching_samples_only:
  assumes "prefixOrdered (stackTable thread)"
  shows "\<exists>t'. dropFunction thread f = Inr t' \<and>
              t' = mapThreadStacks (dropsStack thread f) thread \<and>
              stackTable t' = stackTable thread"
proof -
  have "(\<lambda>oldStack. case oldStack of
                      None \<Rightarrow> None
                    | Some s \<Rightarrow> if s \<in> dropFunction_stacks thread f then None else Some s)
          = dropsStack thread f"
    by (intro ext) (simp add: dropsStack_def dropFunction_stacks_eq[OF assms] split: option.splits)
  then have "dropFunction thread f = Inr (mapThreadStacks (dropsStack thread f) thread)"
    by (simp add: dropFunction_eq)
  then show ?thesis
    by (simp add: mapThreadStacks_def)
qed

lemma smallThread_tables:
  "samples smallThread =
     \<lparr>stack = [Some 0, Some 2, Some 3, None, Some 1], time = [0, 1, 2, 3, 4], weight = None\<rparr>"
  "jsAllocations smallThread =
     Some \<lparr>stack = [Some 3, Some 2], time = [1, 3], weight = Some [8, 16]\<rparr>"
  "nativeAllocations smallThread = None"
  by (simp_all add: smallThread_def)

lemma callPath_smallThread:
  "callPath smallThread 0 = [Some 0]"
  "callPath smallThread 1 = [Some 0, Some 1]"
  "callPath smallThread 2 = [Some 0, Some 1, Some 2]"
  "callPath smallThread 3 = [Some 0, Some 2]"
  by code_simp+

lemma dropsStack_smallThread:
  "dropsStack smallThread (Suc 0) (Some 0) = Some 0"
  "dropsStack smallThread (Suc 0) (Some (Suc 0)) = None"
  "dropsStack smallThread (Suc 0) (Some 2) = None"
  "dropsStack smallThread (Suc 0) (Some 3) = Some 3"
  "dropsStack smallThread (Suc 0) None = None"
  by code_simp+

theorem dropFunction_nulls_matching_samples_only_witness:
  "prefixOrdered (stackTable smallThread) \<and>
   dropFunction smallThread 1 =
     Inr (smallThread\<lparr>samples := \<lparr>stack = [Some 0, None, Some 3, None, None],
                                    time = [0, 1, 2, 3, 4], weight = None\<rparr>,
                       jsAllocations := Some \<lparr>stack = [Some 3, None], time = [1, 3],
                                               weight = Some [8, 16]\<rparr>,
                       nativeAllocations := None\<rparr>)"
proof -
  have ordered: "prefixOrdered (stackTable smallThread)"
    by (simp add: prefixOrdered_def smallThread_def upt_rec)
  have "mapThreadStacks (dropsStack smallThread 1) smallThread =
          smallThread\<lparr>samples := \<lparr>stack = [Some 0, None, Some 3, None, None],
                                    time = [0, 1, 2, 3, 4], weight = None\<rparr>,
                       jsAllocations := Some \<lparr>stack = [Some 3, None], time = [1, 3],
                                               weight = Some [8, 16]\<rparr>,
                       nativeAllocations := None\<rparr>"
    unfolding mapThreadStacks_def smallThread_tables
    by (simp add: dropsStack_smallThread)
  with dropFunction_nulls_matching_samples_only[OF ordered, of 1] ordered
  show ?thesis by simp
qed

section \<open>The codec: strings and numbers\<close>

lemma js_split_nonempty: "js_split sep s \<noteq> []"
  by (induction s) (auto split: list.splits)



lemma digitChar_isDigit: "d < 10 \<Longrightarrow> isDigit (digitChar d)"
proof -
  assume "d < 10"
  then have "d \<in> {0,1,2,3,4,5,6,7,8,9}" by auto
  then show ?thesis
    by (auto simp: isDigit_def digitChar_def)
qed


lemma showNat_digits: "list_all isDigit (showNat n)"
proof (induction n rule: showNat.induct)
  case (1 n)
  show ?case
  proof (cases "n < 10")
    case True
    then show ?thesis by (subst showNat.simps) (simp add: digitChar_isDigit)
  next
    case False
    then show ?thesis
      using 1 by (subst showNat.simps) (simp add: digitChar_isDigit)
  qed
qed




lemma isDigit_not_special:
  "isDigit c \<Longrightarrow> \<not> isWhiteSpace c \<and> c \<noteq> CHR ''-'' \<and> c \<noteq> CHR ''+'' \<and> c \<noteq> CHR ''~''"
  by (auto simp: isDigit_def isWhiteSpace_def)




lemma showNat_no_special [simp]:
  "CHR ''-'' \<notin> set (showNat n)" "CHR ''~'' \<notin> set (showNat n)"
  using showNat_digits[of n] isDigit_not_special by (auto simp: list_all_iff)

lemma implementationString_no_special [simp]:
  "CHR ''-'' \<notin> set (implementationString i)" "CHR ''~'' \<notin> set (implementationString i)"
  by (cases i; simp)+

lemma toValid_implementationString [simp]:
  "toValidImplementationFilter (Some (implementationString i)) = i"
  by (cases i) (simp_all add: toValidImplementationFilter_def)

lemma SHORT_KEY_roundtrip [simp]:
  "SHORT_KEY_TO_TRANSFORM (Some (TRANSFORM_TO_SHORT_KEY t)) = Some t"
  by (cases t) (simp_all add: SHORT_KEY_TO_TRANSFORM_def)

lemma shortKey_no_special [simp]:
  "CHR ''-'' \<notin> set (TRANSFORM_TO_SHORT_KEY t)" "CHR ''~'' \<notin> set (TRANSFORM_TO_SHORT_KEY t)"
  by (cases t; simp)+










section \<open>The codec: round trip\<close>


section \<open>The codec: tolerant parsing\<close>






text \<open>
  No element of \<^verbatim>\<open>s.split('-')\<close> holds a minus sign, so on the tuples that
  \<^verbatim>\<open>parseTransforms\<close> builds itself no index parses as a negative number.
\<close>

lemma parseInt_no_minus:
  assumes "CHR ''-'' \<notin> set s" and "parseInt (Some s) = Some i"
  shows "0 \<le> i"
proof -
  have "dropWhile isWhiteSpace s \<noteq> CHR ''-'' # r" for r
  proof
    assume "dropWhile isWhiteSpace s = CHR ''-'' # r"
    then have "CHR ''-'' \<in> set (dropWhile isWhiteSpace s)" by simp
    then show False using assms(1) set_dropWhileD by fastforce
  qed
  then show ?thesis
    using assms(2)
    by (auto simp: parseInt_def Let_def split: list.splits if_splits)
qed

lemma js_split_no_sep_in_parts: "w \<in> set (js_split sep s) \<Longrightarrow> sep \<notin> set w"
  by (induction s arbitrary: w) (auto split: if_splits list.splits)

lemma parseInt_split_nonneg:
  assumes "parseInt (nth_opt (js_split CHR ''-'' s) k) = Some i"
  shows "0 \<le> i"
proof (cases "k < length (js_split CHR ''-'' s)")
  case True
  then have "js_split CHR ''-'' s ! k \<in> set (js_split CHR ''-'' s)" by simp
  then have "CHR ''-'' \<notin> set (js_split CHR ''-'' s ! k)"
    by (rule js_split_no_sep_in_parts)
  then show ?thesis
    using assms True by (auto simp: nth_opt_def intro: parseInt_no_minus)
next
  case False
  then show ?thesis
    using assms by (simp add: nth_opt_def parseInt_def)
qed

section \<open>The codec on examples\<close>












section \<open>The loops keep their invariants\<close>

lemma forE_snoc:
  "forE (xs @ [x]) body s = (case forE xs body s of Inl e \<Rightarrow> Inl e | Inr s1 \<Rightarrow> body s1 x)"
  by (induction xs arbitrary: s) (auto split: sum.splits)

lemma forE_upt_invariant:
  assumes init: "I 0 s0"
    and step: "\<And>i s s'. i < n \<Longrightarrow> I i s \<Longrightarrow> body s i = Inr s' \<Longrightarrow> I (Suc i) s'"
    and run: "forE [0..<n] body s0 = Inr s'"
  shows "I n s'"
  using step run
proof (induction n arbitrary: s')
  case 0
  then show ?case using init by simp
next
  case (Suc n)
  from Suc.prems(2) obtain s1 where s1: "forE [0..<n] body s0 = Inr s1" and b: "body s1 n = Inr s'"
    by (auto simp: forE_snoc split: sum.splits)
  have "I n s1" using Suc.IH[OF _ s1] Suc.prems(1) by simp
  then show ?case using Suc.prems(1)[of n s1 s'] b by simp
qed

lemma forE_upt_error:
  assumes init: "I 0 s0"
    and step: "\<And>i s s'. i < n \<Longrightarrow> I i s \<Longrightarrow> body s i = Inr s' \<Longrightarrow> I (Suc i) s'"
    and err: "\<And>i s e. i < n \<Longrightarrow> I i s \<Longrightarrow> body s i = Inl e \<Longrightarrow> P e"
    and run: "forE [0..<n] body s0 = Inl e"
  shows "P e"
  using step err run
proof (induction n)
  case 0
  then show ?case by simp
next
  case (Suc n)
  show ?case
  proof (cases "forE [0..<n] body s0")
    case (Inl e')
    then have e: "e' = e" using Suc.prems(3) by (simp add: forE_snoc)
    have step': "\<And>i s s'. i < n \<Longrightarrow> I i s \<Longrightarrow> body s i = Inr s' \<Longrightarrow> I (Suc i) s'"
      using Suc.prems(1) by simp
    have err': "\<And>i s e. i < n \<Longrightarrow> I i s \<Longrightarrow> body s i = Inl e \<Longrightarrow> P e"
      using Suc.prems(2) less_SucI by blast
    show ?thesis using Suc.IH[OF step' err'] Inl e by simp
  next
    case (Inr s1)
    then have b: "body s1 n = Inl e" using Suc.prems(3) by (simp add: forE_snoc)
    have "I n s1"
      using forE_upt_invariant[of I s0 n body s1] init Suc.prems(1) Inr by auto
    then show ?thesis using Suc.prems(2)[of n s1 e] b by simp
  qed
qed

lemma prefixOrdered_snoc:
  "prefixOrdered (tbl @ [r]) \<longleftrightarrow>
     prefixOrdered tbl \<and> (case prefix r of None \<Rightarrow> True | Some p \<Rightarrow> p < length tbl)"
  by (auto simp: prefixOrdered_iff nth_append less_Suc_eq split: option.splits)

lemma prefixOrdered_Nil [simp]: "prefixOrdered []"
  by (simp add: prefixOrdered_def)

lemma resolveCategoryConflict_length [simp]:
  "length (resolveCategoryConflict tbl t c sc d) = length tbl"
  by (simp add: resolveCategoryConflict_def split: option.splits)

lemma resolveCategoryConflict_prefix [simp]:
  "i < length tbl \<Longrightarrow> prefix (resolveCategoryConflict tbl t c sc d ! i) = prefix (tbl ! i)"
  by (auto simp: resolveCategoryConflict_def nth_opt_def nth_list_update split: option.splits if_splits)

lemma prefixOrdered_resolve [simp]:
  "prefixOrdered (resolveCategoryConflict tbl t c sc d) = prefixOrdered tbl"
  by (simp add: prefixOrdered_iff)

lemma FUNC_MATCHES_error: "FUNC_MATCHES impl thread f = Inl e \<Longrightarrow> e = StringNotInTable"
  by (cases impl) (auto simp: getString_def Let_def split: if_splits option.splits sum.splits)

lemma mergeFunction_body_inv:
  "buildInv s \<Longrightarrow> mergeFunction_body thread f s i = Inr s' \<Longrightarrow> buildInv s'"
  by (auto simp: mergeFunction_body_def buildInv_def Let_def prefixOrdered_snoc less_Suc_eq
      split: option.splits if_splits)

lemma mergeFunction_body_maps:
  "mapsBelow i s \<Longrightarrow> mergeFunction_body thread f s i = Inr s' \<Longrightarrow> mapsBelow (Suc i) s'"
  by (auto simp: mergeFunction_body_def mapsBelow_def Let_def less_Suc_eq
      split: option.splits if_splits)

lemma focusFunction_body_inv:
  "buildInv s \<Longrightarrow> focusFunction_body thread f s i = Inr s' \<Longrightarrow> buildInv s'"
  by (auto simp: focusFunction_body_def buildInv_def Let_def prefixOrdered_snoc less_Suc_eq
      split: option.splits if_splits)

lemma focusFunction_body_maps:
  "mapsBelow i s \<Longrightarrow> focusFunction_body thread f s i = Inr s' \<Longrightarrow> mapsBelow (Suc i) s'"
  by (auto simp: focusFunction_body_def mapsBelow_def Let_def less_Suc_eq
      split: option.splits if_splits)

lemma mergeCallNode_body_inv:
  "buildInv s \<Longrightarrow> mergeCallNode_body thread p impl s i = Inr s' \<Longrightarrow> buildInv s'"
  by (auto simp: mergeCallNode_body_def buildInv_def Let_def prefixOrdered_snoc less_Suc_eq
      split: option.splits if_splits sum.splits)

lemma mergeCallNode_body_maps:
  "mapsBelow i s \<Longrightarrow> mergeCallNode_body thread p impl s i = Inr s' \<Longrightarrow> mapsBelow (Suc i) s'"
  by (auto simp: mergeCallNode_body_def mapsBelow_def Let_def less_Suc_eq
      split: option.splits if_splits sum.splits)

lemma collapseDirectRecursion_body_inv:
  "buildInv s \<Longrightarrow> collapseDirectRecursion_body thread f impl s i = Inr s' \<Longrightarrow> buildInv s'"
  by (auto simp: collapseDirectRecursion_body_def buildInv_def Let_def prefixOrdered_snoc less_Suc_eq
      split: option.splits if_splits sum.splits bool.splits)

lemma collapseDirectRecursion_body_maps:
  "mapsBelow i s \<Longrightarrow> collapseDirectRecursion_body thread f impl s i = Inr s' \<Longrightarrow> mapsBelow (Suc i) s'"
  by (auto simp: collapseDirectRecursion_body_def mapsBelow_def Let_def less_Suc_eq
      split: option.splits if_splits sum.splits bool.splits)

lemma collapseFunctionSubtree_body_inv:
  "buildInv s \<Longrightarrow> collapseFunctionSubtree_body thread f d s i = Inr s' \<Longrightarrow> buildInv s'"
  by (auto simp: collapseFunctionSubtree_body_def buildInv_def Let_def prefixOrdered_snoc less_Suc_eq
      split: option.splits if_splits sum.splits)

lemma collapseFunctionSubtree_body_maps:
  "mapsBelow i s \<Longrightarrow> collapseFunctionSubtree_body thread f d s i = Inr s' \<Longrightarrow> mapsBelow (Suc i) s'"
  by (auto simp: collapseFunctionSubtree_body_def mapsBelow_def Let_def less_Suc_eq
      split: option.splits if_splits sum.splits)

lemma focusSubtree_body_inv:
  "buildInv s \<Longrightarrow> focusSubtree_body thread p impl s i = Inr s' \<Longrightarrow> buildInv s'"
  by (auto simp: focusSubtree_body_def buildInv_def Let_def prefixOrdered_snoc less_Suc_eq
      split: option.splits if_splits sum.splits)

lemma collapseResource_body_inv:
  "collapseResourceInv s \<Longrightarrow> collapseResource_body thread r impl d s i = Inr s' \<Longrightarrow>
   collapseResourceInv s'"
  unfolding collapseResource_body_def collapseResourceInv_def buildInv_def Let_def
  by (auto simp: prefixOrdered_snoc less_Suc_eq createCollapsedFrameAndFunc_def Let_def
      split: option.splits if_splits sum.splits)

lemma collapseResource_body_maps:
  "mapsBelow i s \<Longrightarrow> collapseResource_body thread r impl d s i = Inr s' \<Longrightarrow>
   mapsBelow (Suc i) s'"
  unfolding collapseResource_body_def mapsBelow_def Let_def
  by (auto simp: less_Suc_eq createCollapsedFrameAndFunc_def Let_def
      split: option.splits if_splits sum.splits)

lemma prefix_mapped:
  assumes "mapsBelow i s" and "prefixOrdered (stackTable thread)"
    and "i < length (stackTable thread)"
  shows "oldStackToNewStack s (prefix (stackTable thread ! i)) \<noteq> None"
proof (cases "prefix (stackTable thread ! i)")
  case None
  then show ?thesis using assms(1) by (simp add: mapsBelow_def)
next
  case (Some p)
  then have "p < i" using assms(2,3) by (simp add: prefixOrdered_iff)
  then show ?thesis using assms(1) Some by (simp add: mapsBelow_def)
qed

lemma mergeCallNode_body_error:
  "mergeCallNode_body thread p impl s i = Inl e \<Longrightarrow> e = StringNotInTable"
  by (auto simp: mergeCallNode_body_def Let_def dest: FUNC_MATCHES_error
      split: option.splits if_splits sum.splits)

lemma mergeFunction_body_error: "mergeFunction_body thread f s i = Inl e \<Longrightarrow> e = StringNotInTable"
  by (auto simp: mergeFunction_body_def Let_def split: option.splits if_splits)

lemma focusSubtree_body_error:
  "focusSubtree_body thread p impl s i = Inl e \<Longrightarrow> e = StringNotInTable"
  by (auto simp: focusSubtree_body_def Let_def dest: FUNC_MATCHES_error
      split: option.splits if_splits sum.splits)

lemma focusFunction_body_error:
  assumes "mapsBelow i s" and "prefixOrdered (stackTable thread)"
    and "i < length (stackTable thread)"
    and "focusFunction_body thread f s i = Inl e"
  shows "e = StringNotInTable"
  using prefix_mapped[OF assms(1,2,3)] assms(4)
  by (auto simp: focusFunction_body_def Let_def split: option.splits if_splits)

lemma collapseDirectRecursion_body_error:
  assumes "mapsBelow i s" and "prefixOrdered (stackTable thread)"
    and "i < length (stackTable thread)"
    and "collapseDirectRecursion_body thread f impl s i = Inl e"
  shows "e = StringNotInTable"
  using prefix_mapped[OF assms(1,2,3)] assms(4)
  by (auto simp: collapseDirectRecursion_body_def Let_def dest: FUNC_MATCHES_error
      split: option.splits if_splits sum.splits bool.splits)

lemma collapseFunctionSubtree_body_error:
  assumes "mapsBelow i s" and "prefixOrdered (stackTable thread)"
    and "i < length (stackTable thread)"
    and "collapseFunctionSubtree_body thread f d s i = Inl e"
  shows "e = StringNotInTable"
  using prefix_mapped[OF assms(1,2,3)] assms(4)
  by (auto simp: collapseFunctionSubtree_body_def Let_def
      split: option.splits if_splits sum.splits)

lemma collapseResource_body_error:
  assumes "mapsBelow i s" and "collapseResourceInv s" and "prefixOrdered (stackTable thread)"
    and "i < length (stackTable thread)"
    and "collapseResource_body thread r impl d s i = Inl e"
  shows "e = StringNotInTable"
  using prefix_mapped[OF assms(1,3,4)] assms(2,5)
  unfolding collapseResource_body_def collapseResourceInv_def Let_def
  by (auto dest: FUNC_MATCHES_error split: option.splits if_splits sum.splits)

section \<open>Rewriting the samples through a valid map\<close>

lemma samplesValid_iff:
  "samplesValid thread \<longleftrightarrow> (\<forall>x\<in>set (allStacks thread). validStack (stackTable thread) x)"
  by (simp add: samplesValid_def allStacks_def list_all_iff)

lemma mapE_outcome:
  assumes "\<forall>x\<in>set xs. (\<exists>y. f x = Inr y \<and> P y) \<or> f x = Inl E"
  shows "(\<exists>ys. mapE f xs = Inr ys \<and> list_all P ys) \<or> mapE f xs = Inl E"
  using assms by (induction xs) (auto split: sum.splits)

lemma updateStackColumn_outcome:
  assumes "\<forall>x\<in>set (stack tbl). (\<exists>y. conv x = Inr y \<and> P y) \<or> conv x = Inl E"
  shows "(\<exists>t. updateStackColumn conv tbl = Inr t \<and> list_all P (stack t)) \<or>
         updateStackColumn conv tbl = Inl E"
  using mapE_outcome[OF assms] by (auto simp: updateStackColumn_def)

lemma updateOptionalStackColumn_outcome:
  assumes "\<forall>x\<in>set (optionalStackColumn tbl). (\<exists>y. conv x = Inr y \<and> P y) \<or> conv x = Inl E"
  shows "(\<exists>t. updateOptionalStackColumn conv tbl = Inr t \<and> list_all P (optionalStackColumn t)) \<or>
         updateOptionalStackColumn conv tbl = Inl E"
proof (cases tbl)
  case None
  then show ?thesis by (simp add: updateOptionalStackColumn_def optionalStackColumn_def)
next
  case (Some t)
  then show ?thesis
    using updateStackColumn_outcome[of t conv P E] assms
    by (auto simp: updateOptionalStackColumn_def optionalStackColumn_def)
qed

lemma updateThreadStacks_outcome:
  assumes "\<forall>x\<in>set (allStacks thread).
             (\<exists>y. conv x = Inr y \<and> validStack new y) \<or> conv x = Inl E"
  shows "(\<exists>t'. updateThreadStacks thread new conv = Inr t' \<and> samplesValid t') \<or>
         updateThreadStacks thread new conv = Inl E"
proof -
  have 1: "(\<exists>t. updateStackColumn conv (samples thread) = Inr t \<and>
              list_all (validStack new) (stack t)) \<or>
           updateStackColumn conv (samples thread) = Inl E"
    using assms by (intro updateStackColumn_outcome) (simp add: allStacks_def)
  have 2: "(\<exists>t. updateOptionalStackColumn conv (jsAllocations thread) = Inr t \<and>
              list_all (validStack new) (optionalStackColumn t)) \<or>
           updateOptionalStackColumn conv (jsAllocations thread) = Inl E"
    using assms by (intro updateOptionalStackColumn_outcome) (simp add: allStacks_def)
  have 3: "(\<exists>t. updateOptionalStackColumn conv (nativeAllocations thread) = Inr t \<and>
              list_all (validStack new) (optionalStackColumn t)) \<or>
           updateOptionalStackColumn conv (nativeAllocations thread) = Inl E"
    using assms by (intro updateOptionalStackColumn_outcome) (simp add: allStacks_def)
  from 1 2 3 show ?thesis
    by (auto simp: updateThreadStacks_def samplesValid_def)
qed

lemma updateThreadStacks_stackTable:
  "updateThreadStacks thread new conv = Inr t' \<Longrightarrow> stackTable t' = new"
  by (auto simp: updateThreadStacks_def split: sum.splits)

lemma getMapStackUpdater_valid:
  assumes "buildInv s" and "mapsBelow n s" and "validStack old x" and "length old = n"
  shows "\<exists>y. getMapStackUpdater (oldStackToNewStack s) x = Inr y \<and>
             validStack (newStackTable s) y"
proof (cases x)
  case None
  then show ?thesis by (simp add: getMapStackUpdater_def validStack_def)
next
  case (Some k)
  then have "k < n" using assms(3,4) by (simp add: validStack_def)
  then obtain y where y: "oldStackToNewStack s (Some k) = Some y"
    using assms(2) by (auto simp: mapsBelow_def)
  then have "validStack (newStackTable s) y"
    using assms(1) by (cases y) (auto simp: buildInv_def validStack_def)
  then show ?thesis using Some y by (simp add: getMapStackUpdater_def)
qed

lemma updateThreadStacks_map_outcome:
  assumes "buildInv s" and "mapsBelow (length old) s"
    and "\<forall>x\<in>set (allStacks thread). validStack old x"
  shows "\<exists>t'. updateThreadStacks thread (newStackTable s)
                 (getMapStackUpdater (oldStackToNewStack s)) = Inr t' \<and> samplesValid t'"
proof -
  have "\<forall>x\<in>set (allStacks thread).
          (\<exists>y. getMapStackUpdater (oldStackToNewStack s) x = Inr y \<and>
                validStack (newStackTable s) y) \<or>
          getMapStackUpdater (oldStackToNewStack s) x = Inl StringNotInTable"
    using getMapStackUpdater_valid[OF assms(1,2)] assms(3) by blast
  from updateThreadStacks_outcome[OF this] show ?thesis
  proof
    assume "updateThreadStacks thread (newStackTable s)
              (getMapStackUpdater (oldStackToNewStack s)) = Inl StringNotInTable"
    moreover have "\<forall>x\<in>set (allStacks thread).
          (\<exists>y. getMapStackUpdater (oldStackToNewStack s) x = Inr y \<and>
                validStack (newStackTable s) y) \<or>
          getMapStackUpdater (oldStackToNewStack s) x = Inl StackNotFound"
      using getMapStackUpdater_valid[OF assms(1,2)] assms(3) by blast
    ultimately show ?thesis
      using updateThreadStacks_outcome[of thread "getMapStackUpdater (oldStackToNewStack s)"
          "newStackTable s" StackNotFound] by auto
  qed
qed

lemma buildInv_init [simp]:
  "buildInv emptyBuildState"
  "buildInv \<lparr>newStackTable = [], oldStackToNewStack = [None \<mapsto> None], \<dots> = m\<rparr>"
  by (simp_all add: buildInv_def emptyBuildState_def)

lemma mapsBelow_init [simp]:
  "mapsBelow 0 emptyBuildState"
  "mapsBelow 0 \<lparr>newStackTable = [], oldStackToNewStack = [None \<mapsto> None], \<dots> = m\<rparr>"
  by (simp_all add: mapsBelow_def emptyBuildState_def)

section \<open>Every transform: ordered table, valid samples\<close>

lemma build_loop_ordered:
  assumes step: "\<And>i s s'. J s \<Longrightarrow> buildInv s \<Longrightarrow> body s i = Inr s' \<Longrightarrow> buildInv s' \<and> J s'"
    and init: "buildInv s0" "J s0"
    and run: "forE [0..<n] body s0 = Inr s"
  shows "buildInv s \<and> J s"
  using forE_upt_invariant[of "\<lambda>i s. buildInv s \<and> J s" s0 n body s] step init run
  by blast

lemma build_loop_outcome:
  assumes step: "\<And>i s s'. i < n \<Longrightarrow> J i s \<Longrightarrow> buildInv s \<Longrightarrow> mapsBelow i s \<Longrightarrow>
                   body s i = Inr s' \<Longrightarrow> buildInv s' \<and> mapsBelow (Suc i) s' \<and> J (Suc i) s'"
    and err: "\<And>i s e. i < n \<Longrightarrow> J i s \<Longrightarrow> buildInv s \<Longrightarrow> mapsBelow i s \<Longrightarrow>
                   body s i = Inl e \<Longrightarrow> e = StringNotInTable"
    and init: "buildInv s0" "mapsBelow 0 s0" "J 0 s0"
  shows "(\<exists>s. forE [0..<n] body s0 = Inr s \<and> buildInv s \<and> mapsBelow n s \<and> J n s) \<or>
         forE [0..<n] body s0 = Inl StringNotInTable"
proof (cases "forE [0..<n] body s0")
  case (Inl e)
  have "e = StringNotInTable"
    using forE_upt_error[of "\<lambda>i s. buildInv s \<and> mapsBelow i s \<and> J i s" s0 n body
        "\<lambda>e. e = StringNotInTable" e] step err init Inl
    by blast
  then show ?thesis using Inl by simp
next
  case (Inr s)
  have "buildInv s \<and> mapsBelow n s \<and> J n s"
    using forE_upt_invariant[of "\<lambda>i s. buildInv s \<and> mapsBelow i s \<and> J i s" s0 n body s]
      step init Inr
    by blast
  then show ?thesis using Inr by simp
qed

text \<open>What the transforms that end in the map updater return.\<close>

lemma map_transform_outcome:
  assumes loop: "(\<exists>s. loop = Inr s \<and> buildInv s \<and> mapsBelow (length (stackTable thread)) s) \<or>
                 loop = Inl StringNotInTable"
    and valid: "samplesValid thread"
    and same: "allStacks thread' = allStacks thread"
  shows "(\<exists>t'. (case loop of
                  Inl e \<Rightarrow> Inl e
                | Inr s \<Rightarrow> updateThreadStacks thread' (newStackTable s)
                             (getMapStackUpdater (oldStackToNewStack s))) = Inr t' \<and>
               samplesValid t') \<or>
         (case loop of
            Inl e \<Rightarrow> Inl e
          | Inr s \<Rightarrow> updateThreadStacks thread' (newStackTable s)
                       (getMapStackUpdater (oldStackToNewStack s))) = Inl StringNotInTable"
  using loop
proof
  assume "loop = Inl StringNotInTable"
  then show ?thesis by simp
next
  assume "\<exists>s. loop = Inr s \<and> buildInv s \<and> mapsBelow (length (stackTable thread)) s"
  then obtain s where s: "loop = Inr s" "buildInv s" "mapsBelow (length (stackTable thread)) s"
    by blast
  have "\<forall>x\<in>set (allStacks thread'). validStack (stackTable thread) x"
    using valid same by (simp add: samplesValid_iff)
  from updateThreadStacks_map_outcome[OF s(2,3) this] show ?thesis
    using s(1) by simp
qed

lemma map_transform_ordered:
  assumes "\<And>s. loop = Inr s \<Longrightarrow> buildInv s"
    and "(case loop of
            Inl e \<Rightarrow> Inl e
          | Inr s \<Rightarrow> updateThreadStacks thread' (newStackTable s) (conv s)) = Inr t'"
  shows "prefixOrdered (stackTable t')"
  using assms
  by (auto simp: buildInv_def split: sum.splits dest!: updateThreadStacks_stackTable)

subsection \<open>merge-function\<close>

lemma mergeFunction_ordered:
  assumes "mergeFunction thread f = Inr t'"
  shows "prefixOrdered (stackTable t')"
proof (rule map_transform_ordered)
  show "(case forE [0..<length (stackTable thread)] (mergeFunction_body thread f) emptyBuildState of
          Inl e \<Rightarrow> Inl e
        | Inr s \<Rightarrow> updateThreadStacks thread (newStackTable s)
                     (getMapStackUpdater (oldStackToNewStack s))) = Inr t'"
    using assms by (simp add: mergeFunction_def)
next
  fix s
  assume "forE [0..<length (stackTable thread)] (mergeFunction_body thread f) emptyBuildState = Inr s"
  from build_loop_ordered[of "\<lambda>s. True", OF _ _ _ this] show "buildInv s"
    by (auto intro: mergeFunction_body_inv)
qed

lemma mergeFunction_samples:
  assumes "samplesValid thread"
  shows "(\<exists>t'. mergeFunction thread f = Inr t' \<and> samplesValid t') \<or>
         mergeFunction thread f = Inl StringNotInTable"
  unfolding mergeFunction_def
proof (rule map_transform_outcome[OF _ assms refl])
  show "(\<exists>s. forE [0..<length (stackTable thread)] (mergeFunction_body thread f) emptyBuildState =
              Inr s \<and> buildInv s \<and> mapsBelow (length (stackTable thread)) s) \<or>
        forE [0..<length (stackTable thread)] (mergeFunction_body thread f) emptyBuildState =
          Inl StringNotInTable"
    using build_loop_outcome[of "length (stackTable thread)" "\<lambda>i s. True"
        "mergeFunction_body thread f" emptyBuildState]
    by (auto intro: mergeFunction_body_inv mergeFunction_body_maps mergeFunction_body_error)
qed

subsection \<open>focus-function\<close>

lemma focusFunction_ordered:
  assumes "focusFunction thread f = Inr t'"
  shows "prefixOrdered (stackTable t')"
proof (rule map_transform_ordered)
  show "(case forE [0..<length (stackTable thread)] (focusFunction_body thread f) emptyBuildState of
          Inl e \<Rightarrow> Inl e
        | Inr s \<Rightarrow> updateThreadStacks thread (newStackTable s)
                     (getMapStackUpdater (oldStackToNewStack s))) = Inr t'"
    using assms by (simp add: focusFunction_def)
next
  fix s
  assume "forE [0..<length (stackTable thread)] (focusFunction_body thread f) emptyBuildState = Inr s"
  from build_loop_ordered[of "\<lambda>s. True", OF _ _ _ this] show "buildInv s"
    by (auto intro: focusFunction_body_inv)
qed

lemma focusFunction_samples:
  assumes "prefixOrdered (stackTable thread)" and "samplesValid thread"
  shows "(\<exists>t'. focusFunction thread f = Inr t' \<and> samplesValid t') \<or>
         focusFunction thread f = Inl StringNotInTable"
  unfolding focusFunction_def
proof (rule map_transform_outcome[OF _ assms(2) refl])
  show "(\<exists>s. forE [0..<length (stackTable thread)] (focusFunction_body thread f) emptyBuildState =
              Inr s \<and> buildInv s \<and> mapsBelow (length (stackTable thread)) s) \<or>
        forE [0..<length (stackTable thread)] (focusFunction_body thread f) emptyBuildState =
          Inl StringNotInTable"
    using build_loop_outcome[of "length (stackTable thread)" "\<lambda>i s. True"
        "focusFunction_body thread f" emptyBuildState]
    by (auto intro: focusFunction_body_inv focusFunction_body_maps
        focusFunction_body_error[OF _ assms(1)])
qed

subsection \<open>merge-call-node\<close>

lemma mergeCallNode_ordered:
  assumes "mergeCallNode thread p impl = Inr t'"
  shows "prefixOrdered (stackTable t')"
proof (rule map_transform_ordered)
  show "(case forE [0..<length (stackTable thread)] (mergeCallNode_body thread p impl)
            \<lparr>newStackTable = [], oldStackToNewStack = [None \<mapsto> None],
              stackDepths = [], stackMatches = []\<rparr> of
          Inl e \<Rightarrow> Inl e
        | Inr s \<Rightarrow> updateThreadStacks thread (newStackTable s)
                     (getMapStackUpdater (oldStackToNewStack s))) = Inr t'"
    using assms by (simp add: mergeCallNode_def)
next
  fix s
  assume "forE [0..<length (stackTable thread)] (mergeCallNode_body thread p impl)
            \<lparr>newStackTable = [], oldStackToNewStack = [None \<mapsto> None],
              stackDepths = [], stackMatches = []\<rparr> = Inr s"
  from build_loop_ordered[of "\<lambda>s. True", OF _ _ _ this] show "buildInv s"
    by (auto intro: mergeCallNode_body_inv)
qed

lemma mergeCallNode_samples:
  assumes "samplesValid thread"
  shows "(\<exists>t'. mergeCallNode thread p impl = Inr t' \<and> samplesValid t') \<or>
         mergeCallNode thread p impl = Inl StringNotInTable"
  unfolding mergeCallNode_def
proof (rule map_transform_outcome[OF _ assms refl])
  let ?s0 = "\<lparr>newStackTable = [], oldStackToNewStack = [None \<mapsto> None],
              stackDepths = [], stackMatches = []\<rparr>"
  show "(\<exists>s. forE [0..<length (stackTable thread)] (mergeCallNode_body thread p impl) ?s0 =
              Inr s \<and> buildInv s \<and> mapsBelow (length (stackTable thread)) s) \<or>
        forE [0..<length (stackTable thread)] (mergeCallNode_body thread p impl) ?s0 =
          Inl StringNotInTable"
    using build_loop_outcome[of "length (stackTable thread)" "\<lambda>i s. True"
        "mergeCallNode_body thread p impl" ?s0]
    by (auto intro: mergeCallNode_body_inv mergeCallNode_body_maps mergeCallNode_body_error)
qed

subsection \<open>collapse-direct-recursion\<close>

lemma collapseDirectRecursion_ordered:
  assumes "collapseDirectRecursion thread f impl = Inr t'"
  shows "prefixOrdered (stackTable t')"
proof (rule map_transform_ordered)
  show "(case forE [0..<length (stackTable thread)] (collapseDirectRecursion_body thread f impl)
            \<lparr>newStackTable = [], oldStackToNewStack = [None \<mapsto> None],
              recursiveStacks = {}\<rparr> of
          Inl e \<Rightarrow> Inl e
        | Inr s \<Rightarrow> updateThreadStacks thread (newStackTable s)
                     (getMapStackUpdater (oldStackToNewStack s))) = Inr t'"
    using assms by (simp add: collapseDirectRecursion_def)
next
  fix s
  assume "forE [0..<length (stackTable thread)] (collapseDirectRecursion_body thread f impl)
            \<lparr>newStackTable = [], oldStackToNewStack = [None \<mapsto> None],
              recursiveStacks = {}\<rparr> = Inr s"
  from build_loop_ordered[of "\<lambda>s. True", OF _ _ _ this] show "buildInv s"
    by (auto intro: collapseDirectRecursion_body_inv)
qed

lemma collapseDirectRecursion_samples:
  assumes "prefixOrdered (stackTable thread)" and "samplesValid thread"
  shows "(\<exists>t'. collapseDirectRecursion thread f impl = Inr t' \<and> samplesValid t') \<or>
         collapseDirectRecursion thread f impl = Inl StringNotInTable"
  unfolding collapseDirectRecursion_def
proof (rule map_transform_outcome[OF _ assms(2) refl])
  let ?s0 = "\<lparr>newStackTable = [], oldStackToNewStack = [None \<mapsto> None],
              recursiveStacks = {}\<rparr>"
  show "(\<exists>s. forE [0..<length (stackTable thread)] (collapseDirectRecursion_body thread f impl) ?s0 =
              Inr s \<and> buildInv s \<and> mapsBelow (length (stackTable thread)) s) \<or>
        forE [0..<length (stackTable thread)] (collapseDirectRecursion_body thread f impl) ?s0 =
          Inl StringNotInTable"
    using build_loop_outcome[of "length (stackTable thread)" "\<lambda>i s. True"
        "collapseDirectRecursion_body thread f impl" ?s0]
    by (auto intro: collapseDirectRecursion_body_inv collapseDirectRecursion_body_maps
        collapseDirectRecursion_body_error[OF _ assms(1)])
qed

subsection \<open>collapse-function-subtree\<close>

lemma collapseFunctionSubtree_ordered:
  assumes "collapseFunctionSubtree thread f d = Inr t'"
  shows "prefixOrdered (stackTable t')"
proof (rule map_transform_ordered)
  show "(case forE [0..<length (stackTable thread)] (collapseFunctionSubtree_body thread f d)
            \<lparr>newStackTable = [], oldStackToNewStack = [None \<mapsto> None],
              collapsedStacks = {}\<rparr> of
          Inl e \<Rightarrow> Inl e
        | Inr s \<Rightarrow> updateThreadStacks thread (newStackTable s)
                     (getMapStackUpdater (oldStackToNewStack s))) = Inr t'"
    using assms by (simp add: collapseFunctionSubtree_def)
next
  fix s
  assume "forE [0..<length (stackTable thread)] (collapseFunctionSubtree_body thread f d)
            \<lparr>newStackTable = [], oldStackToNewStack = [None \<mapsto> None],
              collapsedStacks = {}\<rparr> = Inr s"
  from build_loop_ordered[of "\<lambda>s. True", OF _ _ _ this] show "buildInv s"
    by (auto intro: collapseFunctionSubtree_body_inv)
qed

lemma collapseFunctionSubtree_samples:
  assumes "prefixOrdered (stackTable thread)" and "samplesValid thread"
  shows "(\<exists>t'. collapseFunctionSubtree thread f d = Inr t' \<and> samplesValid t') \<or>
         collapseFunctionSubtree thread f d = Inl StringNotInTable"
  unfolding collapseFunctionSubtree_def
proof (rule map_transform_outcome[OF _ assms(2) refl])
  let ?s0 = "\<lparr>newStackTable = [], oldStackToNewStack = [None \<mapsto> None],
              collapsedStacks = {}\<rparr>"
  show "(\<exists>s. forE [0..<length (stackTable thread)] (collapseFunctionSubtree_body thread f d) ?s0 =
              Inr s \<and> buildInv s \<and> mapsBelow (length (stackTable thread)) s) \<or>
        forE [0..<length (stackTable thread)] (collapseFunctionSubtree_body thread f d) ?s0 =
          Inl StringNotInTable"
    using build_loop_outcome[of "length (stackTable thread)" "\<lambda>i s. True"
        "collapseFunctionSubtree_body thread f d" ?s0]
    by (auto intro: collapseFunctionSubtree_body_inv collapseFunctionSubtree_body_maps
        collapseFunctionSubtree_body_error[OF _ assms(1)])
qed

subsection \<open>collapse-resource\<close>

lemma collapseResourceInv_buildInv: "collapseResourceInv s \<Longrightarrow> buildInv s"
  by (simp add: collapseResourceInv_def)

lemma collapseResourceInv_init:
  "collapseResourceInv
     \<lparr>newStackTable = [], oldStackToNewStack = [None \<mapsto> None],
      prefixStackToCollapsedStack = Map.empty, collapsedResourceStacks = {},
      collapsedFrameIndex = None, collapsedFuncIndex = None,
      newFrameTable = ft, newFuncTable = fu\<rparr>"
  by (simp add: collapseResourceInv_def)

lemma collapseResource_ordered:
  assumes "collapseResource thread r impl d = Inr t'"
  shows "prefixOrdered (stackTable t')"
proof -
  from assms obtain s where loop: "collapseResource_loop thread r impl d = Inr s"
    and upd: "updateThreadStacks
                (thread\<lparr>frameTable := newFrameTable s, funcTable := newFuncTable s\<rparr>)
                (newStackTable s) (getMapStackUpdater (oldStackToNewStack s)) = Inr t'"
    by (auto simp: collapseResource_def split: sum.splits)
  have "collapseResourceInv s"
    using loop unfolding collapseResource_loop_def
    using forE_upt_invariant[of "\<lambda>i. collapseResourceInv" _ "length (stackTable thread)"
        "collapseResource_body thread r impl d" s]
      collapseResourceInv_init collapseResource_body_inv
    by blast
  then have "prefixOrdered (newStackTable s)"
    by (simp add: collapseResourceInv_def buildInv_def)
  then show ?thesis
    using updateThreadStacks_stackTable[OF upd] by simp
qed

lemma collapseResource_loop_outcome:
  assumes "prefixOrdered (stackTable thread)"
  shows "(\<exists>s. collapseResource_loop thread r impl d = Inr s \<and> buildInv s \<and>
              mapsBelow (length (stackTable thread)) s \<and> collapseResourceInv s) \<or>
         collapseResource_loop thread r impl d = Inl StringNotInTable"
  unfolding collapseResource_loop_def
proof (rule build_loop_outcome[of _ "\<lambda>i. collapseResourceInv"])
  fix i s s'
  assume "collapseResourceInv s" "mapsBelow i s"
    and "collapseResource_body thread r impl d s i = Inr s'"
  then show "buildInv s' \<and> mapsBelow (Suc i) s' \<and> collapseResourceInv s'"
    using collapseResource_body_inv collapseResource_body_maps collapseResourceInv_buildInv
    by blast
next
  fix i s e
  assume "i < length (stackTable thread)" "collapseResourceInv s" "mapsBelow i s"
    and "collapseResource_body thread r impl d s i = Inl e"
  then show "e = StringNotInTable"
    using collapseResource_body_error[OF _ _ assms] by blast
qed (simp_all add: collapseResourceInv_init)

lemma collapseResource_samples:
  assumes "prefixOrdered (stackTable thread)" and "samplesValid thread"
  shows "(\<exists>t'. collapseResource thread r impl d = Inr t' \<and> samplesValid t') \<or>
         collapseResource thread r impl d = Inl StringNotInTable"
proof -
  have loop: "(\<exists>s. collapseResource_loop thread r impl d = Inr s \<and> buildInv s \<and>
              mapsBelow (length (stackTable thread)) s) \<or>
         collapseResource_loop thread r impl d = Inl StringNotInTable"
    using collapseResource_loop_outcome[OF assms(1)] by blast
  show ?thesis
  proof (cases "collapseResource_loop thread r impl d")
    case (Inl e)
    then show ?thesis using loop by (simp add: collapseResource_def)
  next
    case (Inr s)
    have "allStacks (thread\<lparr>frameTable := newFrameTable s, funcTable := newFuncTable s\<rparr>) =
            allStacks thread"
      by (simp add: allStacks_def)
    from map_transform_outcome[OF loop assms(2) this] show ?thesis
      by (simp add: collapseResource_def Inr)
  qed
qed

subsection \<open>focus-subtree\<close>

lemma focusSubtree_body_focusInv:
  assumes "focusSubtreeInv (length (stackTable thread)) (length p) i s"
    and "i < length (stackTable thread)"
    and "prefixOrdered (stackTable thread)"
    and "focusSubtree_body thread p impl s i = Inr s'"
  shows "focusSubtreeInv (length (stackTable thread)) (length p) (Suc i) s'"
proof -
  have pre: "\<And>q. prefix (stackTable thread ! i) = Some q \<Longrightarrow>
               nth_opt (stackMatchesUpTo s) q = Some (stackMatchesUpTo s ! q)"
    using assms(1,2,3) by (auto simp: focusSubtreeInv_def prefixOrdered_iff nth_opt_def)
  show ?thesis
    using assms(1,2,4) pre
    unfolding focusSubtree_body_def focusSubtreeInv_def Let_def
    by (auto simp: less_Suc_eq nth_list_update split: option.splits if_splits sum.splits)
qed

lemma focusSubtree_ordered:
  assumes "focusSubtree thread p impl = Inr t'"
  shows "prefixOrdered (stackTable t')"
proof (rule map_transform_ordered)
  show "(case forE [0..<length (stackTable thread)] (focusSubtree_body thread p impl)
            \<lparr>newStackTable = [], oldStackToNewStack = [None \<mapsto> None],
              stackMatchesUpTo = replicate (length (stackTable thread)) 0\<rparr> of
          Inl e \<Rightarrow> Inl e
        | Inr s \<Rightarrow> updateThreadStacks thread (newStackTable s)
            (\<lambda>oldStack.
               case oldStack of
                 None \<Rightarrow> Inr None
               | Some old \<Rightarrow>
                   if nth_opt (stackMatchesUpTo s) old \<noteq> Some (int (length p))
                   then Inr None
                   else (case oldStackToNewStack s (Some old) of
                           None \<Rightarrow> Inl ConvertedStackUndefined
                         | Some newStack \<Rightarrow> Inr newStack))) = Inr t'"
    using assms by (simp add: focusSubtree_def)
next
  fix s
  assume "forE [0..<length (stackTable thread)] (focusSubtree_body thread p impl)
            \<lparr>newStackTable = [], oldStackToNewStack = [None \<mapsto> None],
              stackMatchesUpTo = replicate (length (stackTable thread)) 0\<rparr> = Inr s"
  from build_loop_ordered[of "\<lambda>s. True", OF _ _ _ this] show "buildInv s"
    by (auto intro: focusSubtree_body_inv)
qed

lemma focusSubtree_samples:
  assumes "prefixOrdered (stackTable thread)" and "samplesValid thread"
  shows "(\<exists>t'. focusSubtree thread p impl = Inr t' \<and> samplesValid t') \<or>
         focusSubtree thread p impl = Inl StringNotInTable"
proof -
  let ?n = "length (stackTable thread)"
  let ?s0 = "\<lparr>newStackTable = [], oldStackToNewStack = [None \<mapsto> None],
              stackMatchesUpTo = replicate ?n 0\<rparr>"
  let ?I = "\<lambda>i s. buildInv s \<and> focusSubtreeInv ?n (length p) i s"
  show ?thesis
  proof (cases "forE [0..<?n] (focusSubtree_body thread p impl) ?s0")
    case (Inl e)
    have "e = StringNotInTable"
      using forE_upt_error[of "\<lambda>i s. True" ?s0 ?n "focusSubtree_body thread p impl"
          "\<lambda>e. e = StringNotInTable" e] Inl focusSubtree_body_error
      by blast
    then show ?thesis using Inl by (simp add: focusSubtree_def)
  next
    case (Inr s)
    have init: "?I 0 ?s0" by (simp add: focusSubtreeInv_def)
    have "?I ?n s"
      using forE_upt_invariant[of ?I ?s0 ?n "focusSubtree_body thread p impl" s] init Inr
        focusSubtree_body_inv focusSubtree_body_focusInv[OF _ _ assms(1)]
      by blast
    then have inv: "buildInv s" and f: "focusSubtreeInv ?n (length p) ?n s" by simp_all
    let ?conv = "\<lambda>oldStack.
               case oldStack of
                 None \<Rightarrow> Inr None
               | Some old \<Rightarrow>
                   if nth_opt (stackMatchesUpTo s) old \<noteq> Some (int (length p))
                   then Inr None
                   else (case oldStackToNewStack s (Some old) of
                           None \<Rightarrow> Inl ConvertedStackUndefined
                         | Some newStack \<Rightarrow> Inr newStack)"
    have "\<forall>x\<in>set (allStacks thread).
            (\<exists>y. ?conv x = Inr y \<and> validStack (newStackTable s) y) \<or>
            ?conv x = Inl StringNotInTable"
    proof
      fix x assume "x \<in> set (allStacks thread)"
      show "(\<exists>y. ?conv x = Inr y \<and> validStack (newStackTable s) y) \<or>
            ?conv x = Inl StringNotInTable"
      proof (cases x)
        case None
        then show ?thesis by (simp add: validStack_def)
      next
        case (Some old)
        show ?thesis
        proof (cases "nth_opt (stackMatchesUpTo s) old = Some (int (length p))")
          case False
          then show ?thesis using Some by (simp add: validStack_def)
        next
          case True
          then have old: "old < ?n" "stackMatchesUpTo s ! old = int (length p)"
            using f by (auto simp: focusSubtreeInv_def nth_opt_def split: if_splits)
          then have "oldStackToNewStack s (Some old) \<noteq> None \<and>
                     oldStackToNewStack s (Some old) \<noteq> Some None"
            using f by (simp add: focusSubtreeInv_def)
          then obtain v where v: "oldStackToNewStack s (Some old) = Some (Some v)"
            by (metis option.exhaust)
          then have "v < length (newStackTable s)"
            using inv by (auto simp: buildInv_def)
          then show ?thesis using Some True v by (simp add: validStack_def)
        qed
      qed
    qed
    from updateThreadStacks_outcome[OF this] show ?thesis
      by (simp add: focusSubtree_def Inr)
  qed
qed

subsection \<open>focus-subtree, inverted\<close>

lemma convertStack_loop_Null:
  "convertStack_loop thread p impl Null m = Some (Inr None)"
  by (subst convertStack_loop.simps) simp

lemma convertStack_loop_outcome:
  assumes "prefixOrdered (stackTable thread)" and "s < length (stackTable thread)"
  shows "(\<exists>y. convertStack_loop thread p impl (Index s) m = Some (Inr y) \<and>
              validStack (stackTable thread) y) \<or>
         convertStack_loop thread p impl (Index s) m = Some (Inl StringNotInTable)"
  using assms(2)
proof (induction s arbitrary: m rule: less_induct)
  case (less s)
  have next_ok: "(\<exists>y. convertStack_loop thread p impl (refPrefix thread (Index s)) m' =
                        Some (Inr y) \<and> validStack (stackTable thread) y) \<or>
         convertStack_loop thread p impl (refPrefix thread (Index s)) m' =
           Some (Inl StringNotInTable)" for m'
  proof (cases "prefix (stackTable thread ! s)")
    case None
    then show ?thesis
      using less.prems
      by (simp add: refPrefix_def refOfStack_def convertStack_loop_Null validStack_def)
  next
    case (Some q)
    then have "q < s" using assms(1) less.prems by (simp add: prefixOrdered_iff)
    then show ?thesis
      using less.IH[of q m'] less.prems Some
      by (simp add: refPrefix_def refOfStack_def)
  qed
  show ?case
  proof (cases "FUNC_MATCHES impl thread (refFunc thread (Index s))")
    case (Inl e)
    then have "e = StringNotInTable" by (rule FUNC_MATCHES_error)
    then show ?thesis
      using Inl next_ok[of "m + 1"] less.prems
      by (subst (1 2) convertStack_loop.simps) (auto simp: Let_def validStack_def)
  next
    case (Inr b)
    then show ?thesis
      using next_ok[of "m + 1"] next_ok[of m] less.prems
      by (subst (1 2) convertStack_loop.simps) (auto simp: Let_def validStack_def)
  qed
qed

lemma convertStack_outcome:
  assumes "prefixOrdered (stackTable thread)" and "validStack (stackTable thread) x"
  shows "(\<exists>y. convertStack thread p impl x = Inr y \<and> validStack (stackTable thread) y) \<or>
         convertStack thread p impl x = Inl StringNotInTable"
proof (cases x)
  case None
  then show ?thesis
    by (simp add: convertStack_def refOfStack_def convertStack_loop_Null validStack_def)
next
  case (Some s)
  then have "s < length (stackTable thread)" using assms(2) by (simp add: validStack_def)
  from convertStack_loop_outcome[OF assms(1) this, of p impl 0] show ?thesis
    using Some by (auto simp: convertStack_def refOfStack_def)
qed

lemma focusInvertedSubtree_samples:
  assumes "prefixOrdered (stackTable thread)" and "samplesValid thread"
  shows "(\<exists>t'. focusInvertedSubtree thread p impl = Inr t' \<and> samplesValid t') \<or>
         focusInvertedSubtree thread p impl = Inl StringNotInTable"
  unfolding focusInvertedSubtree_def
  using convertStack_outcome[OF assms(1)] assms(2)
  by (intro updateThreadStacks_outcome) (simp add: samplesValid_iff)

lemma focusInvertedSubtree_ordered:
  assumes "prefixOrdered (stackTable thread)" and "focusInvertedSubtree thread p impl = Inr t'"
  shows "prefixOrdered (stackTable t')"
  using assms by (auto simp: focusInvertedSubtree_def dest!: updateThreadStacks_stackTable)

subsection \<open>drop-function\<close>

lemma dropFunction_samples:
  assumes "samplesValid thread"
  shows "\<exists>t'. dropFunction thread f = Inr t' \<and> samplesValid t'"
proof -
  let ?conv = "\<lambda>oldStack. Inr (case oldStack of
                                None \<Rightarrow> None
                              | Some s \<Rightarrow> if s \<in> dropFunction_stacks thread f then None else Some s)"
  have "\<forall>x\<in>set (allStacks thread).
          (\<exists>y. ?conv x = Inr y \<and> validStack (stackTable thread) y) \<or>
          ?conv x = Inl StringNotInTable"
    using assms by (auto simp: samplesValid_iff validStack_def split: option.splits)
  from updateThreadStacks_outcome[OF this] show ?thesis
    by (auto simp: dropFunction_def Let_def updateThreadStacks_Inr)
qed

lemma dropFunction_ordered:
  assumes "prefixOrdered (stackTable thread)" and "dropFunction thread f = Inr t'"
  shows "prefixOrdered (stackTable t')"
  using assms by (auto simp: dropFunction_def Let_def dest!: updateThreadStacks_stackTable)

subsection \<open>The rows whose category is reconciled exist\<close>

text \<open>
  \<^verbatim>\<open>collapseFunctionSubtree\<close> reconciles the category of the new stack of a
  prefix, \<^verbatim>\<open>collapseResource\<close> the one of the collapsed stack recorded for a
  prefix. Under the invariants of the two loops, which hold in every round, both are rows
  of the new table.
\<close>

lemma collapsed_target_in_table:
  "buildInv s \<Longrightarrow> oldStackToNewStack s k = Some (Some target) \<Longrightarrow>
     nth_opt (newStackTable s) target = Some (newStackTable s ! target)"
  "collapseResourceInv s' \<Longrightarrow> prefixStackToCollapsedStack s' k = Some (Some target) \<Longrightarrow>
     nth_opt (newStackTable s') target = Some (newStackTable s' ! target)"
  by (auto simp: buildInv_def collapseResourceInv_def nth_opt_def)

section \<open>applyTransform keeps the two invariants\<close>

text \<open>
  C1. On a thread whose stack table is ordered and whose sample-like tables hold only
  null or indices into that table, \<^verbatim>\<open>applyTransform\<close> with any of the eight
  kinds of transform returns a thread in which every stack of every sample-like table
  is null or an index into the stack table of the returned thread. The one other outcome
  is the failure of the string table lookup of the \<^verbatim>\<open>cpp\<close> filter, on a func
  whose name is not in the string table; no other failure occurs, and the call returns.
\<close>

theorem applyTransform_samples_valid:
  assumes "prefixOrdered (stackTable thread)" and "samplesValid thread"
  shows "(\<exists>t'. applyTransform thread transform defaultCategory = Inr t' \<and> samplesValid t') \<or>
         applyTransform thread transform defaultCategory = Inl StringNotInTable"
proof (cases transform)
  case (FocusSubtree impl p inverted)
  then show ?thesis
    using focusSubtree_samples[OF assms] focusInvertedSubtree_samples[OF assms] by simp
next
  case (FocusFunction f)
  then show ?thesis using focusFunction_samples[OF assms] by simp
next
  case (MergeCallNode impl p)
  then show ?thesis using mergeCallNode_samples[OF assms(2)] by simp
next
  case (MergeFunction f)
  then show ?thesis using mergeFunction_samples[OF assms(2)] by simp
next
  case (DropFunction f)
  then show ?thesis using dropFunction_samples[OF assms(2)] by simp
next
  case (CollapseResource r c impl)
  then show ?thesis using collapseResource_samples[OF assms] by simp
next
  case (CollapseDirectRecursion f impl)
  then show ?thesis using collapseDirectRecursion_samples[OF assms] by simp
next
  case (CollapseFunctionSubtree f)
  then show ?thesis using collapseFunctionSubtree_samples[OF assms] by simp
qed

text \<open>
  C2. On a thread whose stack table is ordered, the stack table of the thread that
  \<^verbatim>\<open>applyTransform\<close> returns is ordered: the prefix of every row is null or
  strictly below the row.
\<close>

theorem applyTransform_prefix_ordered:
  assumes "prefixOrdered (stackTable thread)"
    and "applyTransform thread transform defaultCategory = Inr t'"
  shows "prefixOrdered (stackTable t')"
proof (cases transform)
  case (FocusSubtree impl p inverted)
  then show ?thesis
    using assms focusSubtree_ordered focusInvertedSubtree_ordered
    by (cases inverted) auto
next
  case (FocusFunction f)
  then show ?thesis using assms focusFunction_ordered by simp
next
  case (MergeCallNode impl p)
  then show ?thesis using assms mergeCallNode_ordered by simp
next
  case (MergeFunction f)
  then show ?thesis using assms mergeFunction_ordered by simp
next
  case (DropFunction f)
  then show ?thesis using assms dropFunction_ordered by simp
next
  case (CollapseResource r c impl)
  then show ?thesis using assms collapseResource_ordered by simp
next
  case (CollapseDirectRecursion f impl)
  then show ?thesis using assms collapseDirectRecursion_ordered by simp
next
  case (CollapseFunctionSubtree f)
  then show ?thesis using assms collapseFunctionSubtree_ordered by simp
qed

lemma smallThread_ordered: "prefixOrdered (stackTable smallThread)"
  by code_simp

lemma smallThread_valid: "samplesValid smallThread"
  by code_simp

lemma mergeCallNode_smallThread:
  "applyTransform smallThread (MergeCallNode combined [0, 1]) 0 = Inr smallThreadMerged"
  by code_simp

lemma collapseResource_smallThread:
  "applyTransform smallThread (CollapseResource 0 3 cpp) 7 = Inr smallThreadCollapsed"
  by code_simp

theorem applyTransform_samples_valid_witness:
  "prefixOrdered (stackTable smallThread) \<and> samplesValid smallThread \<and>
   applyTransform smallThread (MergeCallNode combined [0, 1]) 0 = Inr smallThreadMerged \<and>
   samplesValid smallThreadMerged"
proof -
  have "samplesValid smallThreadMerged"
    using applyTransform_samples_valid[OF smallThread_ordered smallThread_valid,
        of "MergeCallNode combined [0, 1]" 0]
    unfolding mergeCallNode_smallThread by simp
  then show ?thesis
    using smallThread_ordered smallThread_valid mergeCallNode_smallThread by blast
qed

theorem applyTransform_prefix_ordered_witness:
  "prefixOrdered (stackTable smallThread) \<and>
   applyTransform smallThread (CollapseResource 0 3 cpp) 7 = Inr smallThreadCollapsed \<and>
   prefixOrdered (stackTable smallThreadCollapsed)"
  using applyTransform_prefix_ordered[OF smallThread_ordered collapseResource_smallThread]
    smallThread_ordered collapseResource_smallThread
  by blast

section \<open>merge-call-node on a recursive call\<close>

text \<open>
  C4. merge-call-node at a path is to remove the one node at the tip of the path, and no
  other. On the stacks \<open>0\<close>, \<open>0 \<rightarrow> 1\<close> and \<open>0 \<rightarrow> 1 \<rightarrow> 1\<close> with the path
  \<open>0 \<rightarrow> 1\<close>, \<^verbatim>\<open>mergeCallNode\<close> removes the stack \<open>0 \<rightarrow> 1\<close> and the
  stack \<open>0 \<rightarrow> 1 \<rightarrow> 1\<close> below it as well: the new table has the one stack
  \<open>0\<close>, and all three samples are on it. The call node path counterpart
  \<^verbatim>\<open>_mergeNodeInCallNodePath\<close> takes only the one node out of the path
  \<open>0 \<rightarrow> 1 \<rightarrow> 1\<close>, and leaves \<open>0 \<rightarrow> 1\<close>.
\<close>

theorem mergeCallNode_merges_recursive_child:
  "mergeCallNode recursiveThread [0, 1] combined =
     Inr (recursiveThread
            \<lparr>samples := \<lparr>stack = [Some 0, Some 0, Some 0], time = [0, 1, 2], weight = None\<rparr>,
             stackTable := [\<lparr>prefix = None, frame = 0, category = 0, subcategory = 0\<rparr>]\<rparr>) \<and>
   callPath recursiveThread 2 = [Some 0, Some 1, Some 1] \<and>
   mergeNodeInCallNodePath [0, 1] [0, 1, 1] = [0, 1]"
  by code_simp

section \<open>Call paths in a growing table, and runs\<close>

lemma callPath_cong:
  assumes "stackTable t1 = stackTable t2" and "frameTable t1 = frameTable t2"
  shows "callPath t1 s = callPath t2 s"
proof (induction s rule: less_induct)
  case (less s)
  show ?case
  proof (cases "s < length (stackTable t1)")
    case True
    have 1: "callPath t1 s =
               (case prefix (stackTable t1 ! s) of
                  None \<Rightarrow> []
                | Some p \<Rightarrow> if p < s then callPath t1 p else []) @ [stackFunc t1 s]"
      using True by (rule callPath_step)
    have 2: "callPath t2 s =
               (case prefix (stackTable t2 ! s) of
                  None \<Rightarrow> []
                | Some p \<Rightarrow> if p < s then callPath t2 p else []) @ [stackFunc t2 s]"
      using True assms by (intro callPath_step) simp
    show ?thesis
      unfolding 1 2 using less.IH assms
      by (simp add: stackFunc_def split: option.splits)
  next
    case False
    then show ?thesis using assms by (simp add: callPath_outside)
  qed
qed

lemma callPath_snoc_old:
  assumes "prefixOrdered tbl"
  shows "j < length tbl \<Longrightarrow>
         callPath (thread\<lparr>stackTable := tbl @ [r]\<rparr>) j = callPath (thread\<lparr>stackTable := tbl\<rparr>) j"
proof (induction j rule: less_induct)
  case (less j)
  have q: "\<And>q. prefix (tbl ! j) = Some q \<Longrightarrow> q < j"
    using assms less.prems by (simp add: prefixOrdered_iff)
  have 1: "callPath (thread\<lparr>stackTable := tbl @ [r]\<rparr>) j =
             (case prefix (tbl ! j) of
                None \<Rightarrow> []
              | Some p \<Rightarrow> if p < j then callPath (thread\<lparr>stackTable := tbl @ [r]\<rparr>) p else [])
             @ [nth_opt (func (frameTable thread)) (frame (tbl ! j))]"
    using less.prems
    by (subst callPath_step) (simp_all add: nth_append stackFunc_def)
  have 2: "callPath (thread\<lparr>stackTable := tbl\<rparr>) j =
             (case prefix (tbl ! j) of
                None \<Rightarrow> []
              | Some p \<Rightarrow> if p < j then callPath (thread\<lparr>stackTable := tbl\<rparr>) p else [])
             @ [nth_opt (func (frameTable thread)) (frame (tbl ! j))]"
    using less.prems
    by (subst callPath_step) (simp_all add: stackFunc_def)
  show ?case
    unfolding 1 2 using q less.IH less.prems
    by (auto split: option.splits)
qed

lemma callPath_snoc_new:
  assumes "case prefix r of None \<Rightarrow> True | Some q \<Rightarrow> q < length tbl" and "prefixOrdered tbl"
  shows "callPath (thread\<lparr>stackTable := tbl @ [r]\<rparr>) (length tbl) =
           (case prefix r of None \<Rightarrow> [] | Some q \<Rightarrow> callPath (thread\<lparr>stackTable := tbl\<rparr>) q)
             @ [nth_opt (func (frameTable thread)) (frame r)]"
proof -
  have "callPath (thread\<lparr>stackTable := tbl @ [r]\<rparr>) (length tbl) =
          (case prefix r of
             None \<Rightarrow> []
           | Some p \<Rightarrow> if p < length tbl
                      then callPath (thread\<lparr>stackTable := tbl @ [r]\<rparr>) p else [])
          @ [nth_opt (func (frameTable thread)) (frame r)]"
    by (subst callPath_step) (simp_all add: stackFunc_def)
  then show ?thesis
    using assms by (auto simp: callPath_snoc_old split: option.splits)
qed

lemma runStep_fold:
  "snd (foldl (runStep a skip) (b, out) p) =
     out @ (if b then collapseRunsOf a skip (dropWhile (\<lambda>y. y = a \<or> skip y) p)
            else collapseRunsOf a skip p)"
proof (induction p arbitrary: b out)
  case Nil
  then show ?case by simp
next
  case (Cons x xs)
  have step: "runStep a skip (b, out) x =
                (if b \<and> (x = a \<or> skip x) then (True, out) else (x = a, out @ [x]))"
    by (simp add: runStep_def)
  have "snd (foldl (runStep a skip) (b, out) (x # xs)) =
          snd (foldl (runStep a skip) (runStep a skip (b, out) x) xs)"
    by simp
  also have "\<dots> = out @ (if b then collapseRunsOf a skip (dropWhile (\<lambda>y. y = a \<or> skip y) (x # xs))
            else collapseRunsOf a skip (x # xs))"
    unfolding step by (cases "b \<and> (x = a \<or> skip x)") (auto simp: Cons.IH)
  finally show ?case .
qed

lemma runStep_collapseRunsOf:
  "snd (foldl (runStep a skip) (False, []) p) = collapseRunsOf a skip p"
  by (simp add: runStep_fold)

lemma pathLoop_collapseRunsOf:
  "collapseDirectRecursionInCallNodePath_loop a prev p =
     (if prev = Some a then collapseRunsOf a (\<lambda>_. False) (dropWhile (\<lambda>y. y = a) p)
      else collapseRunsOf a (\<lambda>_. False) p)"
  by (induction p arbitrary: prev) auto

lemma collapseDirectRecursionInCallNodePath_runs:
  "collapseDirectRecursionInCallNodePath a p = collapseRunsOf a (\<lambda>_. False) p"
  by (simp add: collapseDirectRecursionInCallNodePath_def pathLoop_collapseRunsOf)

lemma collapseDirectRecursionInCallNodePath_example:
  "collapseDirectRecursionInCallNodePath 0 [0, 0, 0, 1, 0, 0] = [0, 1, 0]"
  by code_simp

section \<open>collapse-direct-recursion collapses runs\<close>

lemma runState_step:
  assumes "prefixOrdered (stackTable thread)" and "i < length (stackTable thread)"
  shows "runState thread a impl i =
           runStep (Some a) (filteredOut impl thread)
             (case prefix (stackTable thread ! i) of
                None \<Rightarrow> (False, [])
              | Some k \<Rightarrow> runState thread a impl k)
             (stackFunc thread i)"
proof -
  have q: "\<And>q. prefix (stackTable thread ! i) = Some q \<Longrightarrow> q < i"
    using assms by (simp add: prefixOrdered_iff)
  have "callPath thread i =
          (case prefix (stackTable thread ! i) of None \<Rightarrow> [] | Some p \<Rightarrow> callPath thread p)
            @ [stackFunc thread i]"
    using callPath_step[OF assms(2)] q by (auto split: option.splits)
  then show ?thesis
    by (simp add: runState_def split: option.splits)
qed

lemma collapseDirectRecursion_body_step:
  assumes ord: "prefixOrdered (stackTable thread)" and i: "i < length (stackTable thread)"
    and inv: "collapseDirectRecursionInv thread a impl i s"
    and body: "collapseDirectRecursion_body thread a impl s i = Inr s'"
  shows "collapseDirectRecursionInv thread a impl (Suc i) s'"
proof -
  let ?row = "stackTable thread ! i"
  let ?q = "prefix ?row"
  let ?f = "stackFunc thread i"
  let ?new = "newStackTable s"
  define stq where "stq = (case ?q of None \<Rightarrow> (False, []) | Some k \<Rightarrow> runState thread a impl k)"
  have st_i: "runState thread a impl i = runStep (Some a) (filteredOut impl thread) stq ?f"
    unfolding stq_def by (rule runState_step[OF ord i])
  have qlt: "\<And>k. ?q = Some k \<Longrightarrow> k < i"
    using ord i by (simp add: prefixOrdered_iff)
  have binv: "buildInv s" and nn: "oldStackToNewStack s None = Some None"
    and nr: "None \<notin> recursiveStacks s"
    and below: "\<And>k. Some k \<in> recursiveStacks s \<Longrightarrow> k < i"
    and old: "\<And>k. k < i \<Longrightarrow>
               (case oldStackToNewStack s (Some k) of
                  Some (Some j) \<Rightarrow> callPath (thread\<lparr>stackTable := ?new\<rparr>) j =
                                    snd (runState thread a impl k)
                | _ \<Rightarrow> False) \<and>
               (Some k \<in> recursiveStacks s \<longleftrightarrow> fst (runState thread a impl k))"
    using inv by (simp_all add: collapseDirectRecursionInv_def)
  have ordnew: "prefixOrdered ?new"
    and range: "\<And>k v. oldStackToNewStack s k = Some (Some v) \<Longrightarrow> v < length ?new"
    using binv by (auto simp: buildInv_def)
  have inrun: "(?q \<in> recursiveStacks s) = fst stq"
  proof (cases ?q)
    case None
    then show ?thesis using nr by (simp add: stq_def)
  next
    case (Some k)
    then show ?thesis using old[OF qlt[OF Some]] by (simp add: stq_def)
  qed
  obtain v where v: "oldStackToNewStack s ?q = Some v"
    and pathv: "(case v of None \<Rightarrow> [] | Some j \<Rightarrow> callPath (thread\<lparr>stackTable := ?new\<rparr>) j) =
                  snd stq"
    and vrun: "fst stq \<Longrightarrow> v \<noteq> None"
  proof (cases ?q)
    case None
    then show ?thesis using nn that[of None] by (simp add: stq_def)
  next
    case (Some k)
    then obtain j where "oldStackToNewStack s (Some k) = Some (Some j)"
        "callPath (thread\<lparr>stackTable := ?new\<rparr>) j = snd (runState thread a impl k)"
      using old[OF qlt[OF Some]] by (auto split: option.splits)
    then show ?thesis using that[of "Some j"] Some by (simp add: stq_def)
  qed
  have vvalid: "case v of None \<Rightarrow> True | Some j \<Rightarrow> j < length ?new"
    using range v by (auto split: option.splits)
  have binv': "buildInv s'"
    using collapseDirectRecursion_body_inv[OF binv body] .
  show ?thesis
  proof (cases "fst stq \<and> (?f = Some a \<or> filteredOut impl thread ?f)")
    case True
    then have dec: "(if ?q \<in> recursiveStacks s
               then (if Some a = ?f then Inr True
                     else (case FUNC_MATCHES impl thread ?f of
                             Inl e \<Rightarrow> Inl e
                           | Inr matches \<Rightarrow> Inr (\<not> matches)))
               else Inr False) = Inr True"
      using inrun by (auto simp: filteredOut_def)
    have s': "s' = s\<lparr>oldStackToNewStack := (oldStackToNewStack s)(Some i \<mapsto> v),
                     recursiveStacks := insert (Some i) (recursiveStacks s)\<rparr>"
      using body unfolding collapseDirectRecursion_body_def Let_def dec
      by (simp add: v)
    have sti: "runState thread a impl i = (True, snd stq)"
      using True by (simp add: st_i runStep_def)
    obtain j where j: "v = Some j" using vrun True by (cases v) auto
    show ?thesis
      unfolding collapseDirectRecursionInv_def
    proof (intro conjI allI impI)
      show "buildInv s'" by (rule binv')
      show "oldStackToNewStack s' None = Some None" using nn by (simp add: s')
      show "None \<notin> recursiveStacks s'" using nr by (simp add: s')
    next
      fix k assume "Some k \<in> recursiveStacks s'"
      then show "k < Suc i" using below by (auto simp: s' less_Suc_eq split: if_splits)
    next
      fix k assume "k < Suc i"
      then consider "k = i" | "k < i" by linarith
      then show "case oldStackToNewStack s' (Some k) of
                   Some (Some j) \<Rightarrow> callPath (thread\<lparr>stackTable := newStackTable s'\<rparr>) j =
                                     snd (runState thread a impl k)
                 | _ \<Rightarrow> False"
      proof cases
        case 1
        then show ?thesis using pathv j by (simp add: s' sti)
      next
        case 2
        then show ?thesis using old[OF 2] by (auto simp: s' split: option.splits)
      qed
    next
      fix k assume "k < Suc i"
      then consider "k = i" | "k < i" by linarith
      then show "(Some k \<in> recursiveStacks s') = fst (runState thread a impl k)"
      proof cases
        case 1
        then show ?thesis by (simp add: s' sti)
      next
        case 2
        then show ?thesis using old[OF 2] by (simp add: s')
      qed
    qed
  next
    case False
    have fm: "fst stq \<Longrightarrow> ?f \<noteq> Some a \<Longrightarrow> FUNC_MATCHES impl thread ?f = Inr True"
    proof -
      assume a1: "fst stq" and a2: "?f \<noteq> Some a"
      then have "FUNC_MATCHES impl thread ?f \<noteq> Inr False"
        using False by (simp add: filteredOut_def)
      moreover have "\<And>e. FUNC_MATCHES impl thread ?f \<noteq> Inl e"
        using body a1 a2 inrun
        unfolding collapseDirectRecursion_body_def Let_def by auto
      ultimately show ?thesis
        by (cases "FUNC_MATCHES impl thread ?f") auto
    qed
    have dec: "(if ?q \<in> recursiveStacks s
               then (if Some a = ?f then Inr True
                     else (case FUNC_MATCHES impl thread ?f of
                             Inl e \<Rightarrow> Inl e
                           | Inr matches \<Rightarrow> Inr (\<not> matches)))
               else Inr False) = Inr False"
      using inrun False fm by (auto simp: filteredOut_def)
    let ?r = "\<lparr>prefix = v, frame = frame ?row, category = category ?row,
               subcategory = subcategory ?row\<rparr>"
    have s': "s' = s\<lparr>newStackTable := ?new @ [?r],
                     oldStackToNewStack :=
                       (oldStackToNewStack s)(Some i \<mapsto> Some (length ?new)),
                     recursiveStacks :=
                       (if Some a = ?f then insert (Some i) (recursiveStacks s)
                        else recursiveStacks s)\<rparr>"
      using body unfolding collapseDirectRecursion_body_def Let_def dec
      by (simp add: v)
    have sti: "runState thread a impl i = (?f = Some a, snd stq @ [?f])"
      using False by (simp add: st_i runStep_def)
    have newpath: "callPath (thread\<lparr>stackTable := ?new @ [?r]\<rparr>) (length ?new) = snd stq @ [?f]"
      using callPath_snoc_new[where r = ?r and tbl = ?new and thread = thread] vvalid ordnew pathv
      by (simp add: stackFunc_def)
    show ?thesis
      unfolding collapseDirectRecursionInv_def
    proof (intro conjI allI impI)
      show "buildInv s'" by (rule binv')
      show "oldStackToNewStack s' None = Some None" using nn by (simp add: s')
      show "None \<notin> recursiveStacks s'" using nr by (simp add: s')
    next
      fix k assume "Some k \<in> recursiveStacks s'"
      then show "k < Suc i" using below by (auto simp: s' less_Suc_eq split: if_splits)
    next
      fix k assume "k < Suc i"
      then consider "k = i" | "k < i" by linarith
      then show "case oldStackToNewStack s' (Some k) of
                   Some (Some j) \<Rightarrow> callPath (thread\<lparr>stackTable := newStackTable s'\<rparr>) j =
                                     snd (runState thread a impl k)
                 | _ \<Rightarrow> False"
      proof cases
        case 1
        then show ?thesis using newpath by (simp add: s' sti)
      next
        case 2
        then obtain j where j: "oldStackToNewStack s (Some k) = Some (Some j)"
          and p: "callPath (thread\<lparr>stackTable := ?new\<rparr>) j = snd (runState thread a impl k)"
          using old[OF 2] by (auto split: option.splits)
        have "j < length ?new" using range j by blast
        then have "callPath (thread\<lparr>stackTable := ?new @ [?r]\<rparr>) j = snd (runState thread a impl k)"
          using callPath_snoc_old[OF ordnew] p by simp
        then show ?thesis using 2 j by (simp add: s')
      qed
    next
      fix k assume "k < Suc i"
      then consider "k = i" | "k < i" by linarith
      then show "(Some k \<in> recursiveStacks s') = fst (runState thread a impl k)"
      proof cases
        case 1
        then show ?thesis using below[of i] by (auto simp: s' sti)
      next
        case 2
        then show ?thesis using old[OF 2] by (auto simp: s')
      qed
    qed
  qed
qed

lemma collapseDirectRecursion_loop_paths:
  assumes ord: "prefixOrdered (stackTable thread)"
    and run: "forE [0..<length (stackTable thread)] (collapseDirectRecursion_body thread a impl)
                \<lparr>newStackTable = [], oldStackToNewStack = [None \<mapsto> None],
                 recursiveStacks = {}\<rparr> = Inr s"
  shows "collapseDirectRecursionInv thread a impl (length (stackTable thread)) s"
proof (rule forE_upt_invariant[of "collapseDirectRecursionInv thread a impl" _ _ _ s, OF _ _ run])
  show "collapseDirectRecursionInv thread a impl 0
          \<lparr>newStackTable = [], oldStackToNewStack = [None \<mapsto> None], recursiveStacks = {}\<rparr>"
    by (simp add: collapseDirectRecursionInv_def)
next
  fix i s1 s2
  assume "i < length (stackTable thread)" "collapseDirectRecursionInv thread a impl i s1"
    "collapseDirectRecursion_body thread a impl s1 i = Inr s2"
  then show "collapseDirectRecursionInv thread a impl (Suc i) s2"
    using collapseDirectRecursion_body_step[OF ord] by blast
qed

lemma mapE_nth:
  "mapE f xs = Inr ys \<Longrightarrow> n < length xs \<Longrightarrow> f (xs ! n) = Inr (ys ! n)"
proof (induction xs arbitrary: ys n)
  case Nil
  then show ?case by simp
next
  case (Cons x xs)
  then show ?case
    by (cases n) (auto split: sum.splits)
qed

lemma updateThreadStacks_sample:
  assumes "updateThreadStacks thread new conv = Inr t'" and "n < length (stack (samples thread))"
  shows "conv (stack (samples thread) ! n) = Inr (stack (samples t') ! n)"
  using assms mapE_nth[of conv "stack (samples thread)" _ n]
  by (auto simp: updateThreadStacks_def updateStackColumn_def split: sum.splits)

lemma updateThreadStacks_frameTable:
  "updateThreadStacks thread new conv = Inr t' \<Longrightarrow> frameTable t' = frameTable thread"
  by (auto simp: updateThreadStacks_def split: sum.splits)

text \<open>
  The call node path counterpart collapses the same way, without a filter, and the
  entries that the filter leaves out vanish into the run they follow.
\<close>

lemma collapseRunsOf_interleaved:
  "skip x \<Longrightarrow> collapseRunsOf a skip (a # x # a # rest) = collapseRunsOf a skip (a # rest)"
  by simp

text \<open>
  C6. On a thread with an ordered stack table, take a sample whose stack is in the table.
  In the thread that \<^verbatim>\<open>collapseDirectRecursion\<close> returns, the sample has a stack,
  and the call path of that stack is the call path of the old one with every run of the
  func collapsed down to its first occurrence: the occurrences that follow the first one,
  and the stacks among and after them that the implementation filter leaves out, are
  gone, and occurrences that are not adjacent stay separate. On the call path
  \<open>[A, A, A, B, A, A]\<close> that is \<open>[A, B, A]\<close> (the example that follows the theorem).
\<close>

theorem collapseDirectRecursion_collapses_runs:
  assumes "prefixOrdered (stackTable thread)"
    and "collapseDirectRecursion thread a impl = Inr t'"
    and "n < length (stack (samples thread))"
    and "stack (samples thread) ! n = Some i"
    and "i < length (stackTable thread)"
  shows "\<exists>j. stack (samples t') ! n = Some j \<and>
             callPath t' j =
               collapseRunsOf (Some a) (filteredOut impl thread) (callPath thread i)"
proof -
  from assms(2) obtain s where
    run: "forE [0..<length (stackTable thread)] (collapseDirectRecursion_body thread a impl)
                \<lparr>newStackTable = [], oldStackToNewStack = [None \<mapsto> None],
                 recursiveStacks = {}\<rparr> = Inr s"
    and upd: "updateThreadStacks thread (newStackTable s)
                (getMapStackUpdater (oldStackToNewStack s)) = Inr t'"
    by (auto simp: collapseDirectRecursion_def split: sum.splits)
  have inv: "collapseDirectRecursionInv thread a impl (length (stackTable thread)) s"
    by (rule collapseDirectRecursion_loop_paths[OF assms(1) run])
  then have "case oldStackToNewStack s (Some i) of
               Some (Some j) \<Rightarrow> callPath (thread\<lparr>stackTable := newStackTable s\<rparr>) j =
                                 snd (runState thread a impl i)
             | _ \<Rightarrow> False"
    using assms(5) by (simp add: collapseDirectRecursionInv_def)
  then obtain j where j: "oldStackToNewStack s (Some i) = Some (Some j)"
    and p: "callPath (thread\<lparr>stackTable := newStackTable s\<rparr>) j =
              snd (runState thread a impl i)"
    by (auto split: option.splits)
  have "getMapStackUpdater (oldStackToNewStack s) (Some i) = Inr (stack (samples t') ! n)"
    using updateThreadStacks_sample[OF upd assms(3)] assms(4) by simp
  then have sample: "stack (samples t') ! n = Some j"
    using j by (simp add: getMapStackUpdater_def)
  have "callPath t' j = callPath (thread\<lparr>stackTable := newStackTable s\<rparr>) j"
    using updateThreadStacks_stackTable[OF upd] updateThreadStacks_frameTable[OF upd]
    by (intro callPath_cong) simp_all
  then have "callPath t' j =
               collapseRunsOf (Some a) (filteredOut impl thread) (callPath thread i)"
    using p by (simp add: runState_def runStep_collapseRunsOf)
  then show ?thesis using sample by blast
qed

lemma chainThread_facts:
  "prefixOrdered (stackTable chainThread)"
  "collapseDirectRecursion chainThread 0 combined = Inr chainThreadCollapsed"
  "callPath chainThread 5 = [Some 0, Some 0, Some 0, Some 1, Some 0, Some 0]"
  "stack (samples chainThread) ! 0 = Some 5"
  "stack (samples chainThreadCollapsed) ! 0 = Some 2"
  "collapseRunsOf (Some 0) (filteredOut combined chainThread)
     [Some 0, Some 0, Some 0, Some 1, Some 0, Some 0] = [Some 0, Some 1, Some 0]"
  by code_simp+

theorem collapseDirectRecursion_collapses_runs_witness:
  "prefixOrdered (stackTable chainThread) \<and>
   collapseDirectRecursion chainThread 0 combined = Inr chainThreadCollapsed \<and>
   stack (samples chainThread) ! 0 = Some 5 \<and>
   callPath chainThread 5 = [Some 0, Some 0, Some 0, Some 1, Some 0, Some 0] \<and>
   stack (samples chainThreadCollapsed) ! 0 = Some 2 \<and>
   callPath chainThreadCollapsed 2 = [Some 0, Some 1, Some 0]"
proof -
  have "\<exists>j. stack (samples chainThreadCollapsed) ! 0 = Some j \<and>
            callPath chainThreadCollapsed j =
              collapseRunsOf (Some 0) (filteredOut combined chainThread)
                (callPath chainThread 5)"
    by (rule collapseDirectRecursion_collapses_runs[OF chainThread_facts(1,2) _
          chainThread_facts(4)])
       (simp_all add: chainThread_def)
  then obtain j where "stack (samples chainThreadCollapsed) ! 0 = Some j"
    and "callPath chainThreadCollapsed j =
              collapseRunsOf (Some 0) (filteredOut combined chainThread)
                (callPath chainThread 5)"
    by blast
  then have "callPath chainThreadCollapsed 2 =
               collapseRunsOf (Some 0) (filteredOut combined chainThread)
                 [Some 0, Some 0, Some 0, Some 1, Some 0, Some 0]"
    unfolding chainThread_facts(3,5) by simp
  then have "callPath chainThreadCollapsed 2 = [Some 0, Some 1, Some 0]"
    by (simp only: chainThread_facts(6))
  then show ?thesis using chainThread_facts(1-5) by blast
qed

section \<open>collapse-resource: siblings and categories\<close>

lemma resolve_nth:
  "c < length tbl \<Longrightarrow>
   resolveCategoryConflict tbl e cat sub d ! c =
     (if c = e
      then (if category (tbl ! e) \<noteq> cat then (tbl ! e)\<lparr>category := d, subcategory := 0\<rparr>
            else if subcategory (tbl ! e) \<noteq> sub then (tbl ! e)\<lparr>subcategory := 0\<rparr>
            else tbl ! e)
      else tbl ! c)"
  by (auto simp: resolveCategoryConflict_def nth_opt_def)

lemma resolve_frame [simp]:
  "c < length tbl \<Longrightarrow> frame (resolveCategoryConflict tbl e cat sub d ! c) = frame (tbl ! c)"
  by (simp add: resolve_nth)

lemma categoriesReconciled_resolve:
  assumes "c < length tbl" and "categoriesReconciled (tbl ! c) old d"
  shows "categoriesReconciled (resolveCategoryConflict tbl e cat sub d ! c) old d"
  using assms by (auto simp: resolve_nth categoriesReconciled_def)

lemma categoriesReconciled_resolve_new:
  assumes "e < length tbl"
  shows "categoriesReconciled
           (resolveCategoryConflict tbl e (category old) (subcategory old) d ! e) old d"
  using assms by (auto simp: resolve_nth categoriesReconciled_def)

lemma collapsedNodesInv_step:
  assumes "collapsedNodesInv thread r s"
    and "collapseResource_body thread r impl d s m = Inr s'"
  shows "collapsedNodesInv thread r s'"
  using assms
  unfolding collapseResource_body_def collapsedNodesInv_def Let_def
  by (auto simp: nth_append less_Suc_eq createCollapsedFrameAndFunc_def Let_def
      tablesExtended_def shallowCloneFrameTable_def shallowCloneFuncTable_def
      split: option.splits if_splits sum.splits)

lemma siblingOK_frame:
  assumes ok: "siblingOK thread d s k"
    and binv: "buildInv s"
    and a: "oldStackToNewStack s' (Some k) = oldStackToNewStack s (Some k)"
    and b: "oldStackToNewStack s' (prefix (stackTable thread ! k)) =
            oldStackToNewStack s (prefix (stackTable thread ! k))"
    and c: "\<And>v. validStack (newStackTable s) v \<Longrightarrow>
              (v \<in> collapsedResourceStacks s') = (v \<in> collapsedResourceStacks s)"
    and p: "\<And>c. prefixStackToCollapsedStack s (prefix (stackTable thread ! k)) = Some (Some c) \<Longrightarrow>
              prefixStackToCollapsedStack s' (prefix (stackTable thread ! k)) = Some (Some c)"
    and r: "\<And>c. c < length (newStackTable s) \<Longrightarrow>
              categoriesReconciled (newStackTable s ! c) (stackTable thread ! k) d \<Longrightarrow>
              categoriesReconciled (newStackTable s' ! c) (stackTable thread ! k) d"
  shows "siblingOK thread d s' k"
proof -
  from ok obtain c v where
    1: "oldStackToNewStack s (Some k) = Some (Some c)"
    and 2: "oldStackToNewStack s (prefix (stackTable thread ! k)) = Some v"
    and 3: "Some c \<in> collapsedResourceStacks s"
    and 4: "if v \<in> collapsedResourceStacks s then v = Some c
            else prefixStackToCollapsedStack s (prefix (stackTable thread ! k)) =
                   Some (Some c) \<and>
                 categoriesReconciled (newStackTable s ! c) (stackTable thread ! k) d"
    unfolding siblingOK_def by blast
  have clen: "c < length (newStackTable s)"
    using binv 1 by (auto simp: buildInv_def)
  have vc: "validStack (newStackTable s) (Some c)"
    using clen by (simp add: validStack_def)
  have vv: "validStack (newStackTable s) v"
    using binv 2 by (cases v) (auto simp: buildInv_def validStack_def)
  show ?thesis
    unfolding siblingOK_def
  proof (intro exI[of _ c] exI[of _ v] conjI)
    show "oldStackToNewStack s' (Some k) = Some (Some c)" using a 1 by simp
    show "oldStackToNewStack s' (prefix (stackTable thread ! k)) = Some v" using b 2 by simp
    show "Some c \<in> collapsedResourceStacks s'" using c[OF vc] 3 by simp
    show "if v \<in> collapsedResourceStacks s' then v = Some c
          else prefixStackToCollapsedStack s' (prefix (stackTable thread ! k)) =
                 Some (Some c) \<and>
               categoriesReconciled (newStackTable s' ! c) (stackTable thread ! k) d"
      using 4 c[OF vv] p[of c] r[OF clen] by (auto split: if_splits)
  qed
qed

lemma body_keeps_map:
  assumes "collapseResource_body thread r impl d s m = Inr s'" and "key \<noteq> Some m"
  shows "oldStackToNewStack s' key = oldStackToNewStack s key"
  using assms
  unfolding collapseResource_body_def Let_def
  by (auto simp: createCollapsedFrameAndFunc_def Let_def
      split: option.splits if_splits sum.splits)

lemma body_collapsed:
  assumes "collapseResource_body thread r impl d s m = Inr s'"
    and "validStack (newStackTable s) v"
  shows "(v \<in> collapsedResourceStacks s') = (v \<in> collapsedResourceStacks s)"
  using assms
  unfolding collapseResource_body_def Let_def
  by (auto simp: createCollapsedFrameAndFunc_def Let_def validStack_def
      split: option.splits if_splits sum.splits)

lemma body_keeps_recorded:
  assumes "collapseResource_body thread r impl d s m = Inr s'"
    and "prefixStackToCollapsedStack s q = Some (Some c)"
  shows "prefixStackToCollapsedStack s' q = Some (Some c)"
  using assms
  unfolding collapseResource_body_def Let_def
  by (auto simp: createCollapsedFrameAndFunc_def Let_def
      split: option.splits if_splits sum.splits)

lemma body_keeps_reconciled:
  assumes "collapseResource_body thread r impl d s m = Inr s'"
    and "c < length (newStackTable s)"
    and "categoriesReconciled (newStackTable s ! c) old d"
  shows "categoriesReconciled (newStackTable s' ! c) old d"
  using assms
  unfolding collapseResource_body_def Let_def
  by (auto simp: createCollapsedFrameAndFunc_def Let_def nth_append
      categoriesReconciled_resolve
      split: option.splits if_splits sum.splits)

lemma siblingsInv_step:
  assumes ord: "prefixOrdered (stackTable thread)" and m: "m < length (stackTable thread)"
    and cinv: "collapseResourceInv s"
    and nodes: "collapsedNodesInv thread r s"
    and sib: "siblingsInv thread r d m s"
    and body: "collapseResource_body thread r impl d s m = Inr s'"
  shows "siblingsInv thread r d (Suc m) s'"
  unfolding siblingsInv_def
proof (intro allI impI)
  fix k assume k: "k < Suc m" and res: "stackResource thread k = Some (int r)"
  let ?row = "stackTable thread ! m"
  let ?q = "prefix ?row"
  have binv: "buildInv s" using cinv by (simp add: collapseResourceInv_def)
  have qne: "prefix (stackTable thread ! j) \<noteq> Some m" if "j \<le> m" for j
  proof
    assume a: "prefix (stackTable thread ! j) = Some m"
    have "j < length (stackTable thread)" using that m by simp
    then have "m < j" using ord a by (simp add: prefixOrdered_iff)
    then show False using that by simp
  qed
  show "siblingOK thread d s' k"
  proof (cases "k < m")
    case True
    then have ok: "siblingOK thread d s k" using sib res by (simp add: siblingsInv_def)
    show ?thesis
    proof (rule siblingOK_frame[OF ok binv])
      show "oldStackToNewStack s' (Some k) = oldStackToNewStack s (Some k)"
        using body_keeps_map[OF body] True by simp
      show "oldStackToNewStack s' (prefix (stackTable thread ! k)) =
            oldStackToNewStack s (prefix (stackTable thread ! k))"
        using body_keeps_map[OF body] qne[of k] True by simp
    qed (use body_collapsed[OF body] body_keeps_recorded[OF body]
          body_keeps_reconciled[OF body] in blast)+
  next
    case False
    then have km: "k = m" using k by simp
    have resm: "funcColumn (resource (funcTable thread)) (stackFunc thread m) = Some (int r)"
      using res km by (simp add: stackResource_def)
    obtain np where np: "oldStackToNewStack s ?q = Some np"
      using body unfolding collapseResource_body_def Let_def
      by (auto split: option.splits)
    have npvalid: "validStack (newStackTable s) np"
      using binv np by (cases np) (auto simp: buildInv_def validStack_def)
    have keep: "oldStackToNewStack s' ?q = Some np"
      using body_keeps_map[OF body, of ?q] qne[of m] np by simp
    show ?thesis
    proof (cases "np \<in> collapsedResourceStacks s")
      case True
      then obtain c where c: "np = Some c"
        using nodes by (cases np) (auto simp: collapsedNodesInv_def)
      have s': "s' = s\<lparr>oldStackToNewStack := (oldStackToNewStack s)(Some m \<mapsto> np)\<rparr>"
        using body True unfolding collapseResource_body_def Let_def
        by (simp add: np resm)
      show ?thesis
        unfolding siblingOK_def km
        by (rule exI[of _ c], rule exI[of _ np]) (use True c keep in \<open>simp add: s'\<close>)
    next
      case False
      show ?thesis
      proof (cases "prefixStackToCollapsedStack s ?q")
        case None
        let ?c = "length (newStackTable s)"
        have o: "oldStackToNewStack s' (Some m) = Some (Some ?c)"
          and col: "collapsedResourceStacks s' = insert (Some ?c) (collapsedResourceStacks s)"
          and rec: "prefixStackToCollapsedStack s' ?q = Some (Some ?c)"
          and row: "newStackTable s' ! ?c =
                      \<lparr>prefix = np,
                        frame = (case collapsedFrameIndex
                                        (if collapsedFrameIndex s = None
                                         then createCollapsedFrameAndFunc thread r
                                                (stackFunc thread m) s
                                         else s) of
                                   None \<Rightarrow> 0 | Some f \<Rightarrow> f),
                        category = category ?row, subcategory = subcategory ?row\<rparr>"
          using body False None unfolding collapseResource_body_def Let_def
          by (auto simp: np resm createCollapsedFrameAndFunc_def Let_def)
        have "np \<noteq> Some ?c" using npvalid by (auto simp: validStack_def)
        then have "np \<notin> collapsedResourceStacks s'" using False col by simp
        moreover have "categoriesReconciled (newStackTable s' ! ?c) ?row d"
          unfolding row by (simp add: categoriesReconciled_def)
        ultimately show ?thesis
          unfolding siblingOK_def km
          by (intro exI[of _ ?c] exI[of _ np]) (simp add: o keep col rec)
      next
        case (Some e')
        then obtain e where e: "prefixStackToCollapsedStack s ?q = Some (Some e)"
          using body False unfolding collapseResource_body_def Let_def
          by (cases e') (auto simp: np resm)
        have s': "s' = s\<lparr>oldStackToNewStack := (oldStackToNewStack s)(Some m \<mapsto> Some e),
                         newStackTable :=
                           resolveCategoryConflict (newStackTable s) e (category ?row)
                             (subcategory ?row) d\<rparr>"
          using body False unfolding collapseResource_body_def Let_def
          by (simp add: np resm e)
        have elen: "e < length (newStackTable s)"
          using cinv e by (auto simp: collapseResourceInv_def)
        have ecol: "Some e \<in> collapsedResourceStacks s"
          using nodes e by (auto simp: collapsedNodesInv_def)
        have "categoriesReconciled (newStackTable s' ! e) ?row d"
          unfolding s' using categoriesReconciled_resolve_new[OF elen] by simp
        then show ?thesis
          unfolding siblingOK_def km
          by (intro exI[of _ e] exI[of _ np]) (use False ecol keep e in \<open>simp add: s'\<close>)
      qed
    qed
  qed
qed

lemma collapsedNodesInv_init:
  "collapsedNodesInv thread r
     \<lparr>newStackTable = [], oldStackToNewStack = [None \<mapsto> None],
      prefixStackToCollapsedStack = Map.empty, collapsedResourceStacks = {},
      collapsedFrameIndex = None, collapsedFuncIndex = None,
      newFrameTable = shallowCloneFrameTable (frameTable thread),
      newFuncTable = shallowCloneFuncTable (funcTable thread)\<rparr>"
  by (simp add: collapsedNodesInv_def shallowCloneFrameTable_def shallowCloneFuncTable_def)

lemma collapseResource_loop_siblings:
  assumes ord: "prefixOrdered (stackTable thread)"
    and run: "collapseResource_loop thread r impl d = Inr s"
  shows "collapseResourceInv s \<and> mapsBelow (length (stackTable thread)) s \<and>
         collapsedNodesInv thread r s \<and>
         siblingsInv thread r d (length (stackTable thread)) s"
proof (rule forE_upt_invariant[of
      "\<lambda>m s. collapseResourceInv s \<and> mapsBelow m s \<and> collapsedNodesInv thread r s \<and>
             siblingsInv thread r d m s" _ _ _ s,
      OF _ _ run[unfolded collapseResource_loop_def]])
  show "collapseResourceInv
          \<lparr>newStackTable = [], oldStackToNewStack = [None \<mapsto> None],
           prefixStackToCollapsedStack = Map.empty, collapsedResourceStacks = {},
           collapsedFrameIndex = None, collapsedFuncIndex = None,
           newFrameTable = shallowCloneFrameTable (frameTable thread),
           newFuncTable = shallowCloneFuncTable (funcTable thread)\<rparr> \<and>
        mapsBelow 0
          \<lparr>newStackTable = [], oldStackToNewStack = [None \<mapsto> None],
           prefixStackToCollapsedStack = Map.empty, collapsedResourceStacks = {},
           collapsedFrameIndex = None, collapsedFuncIndex = None,
           newFrameTable = shallowCloneFrameTable (frameTable thread),
           newFuncTable = shallowCloneFuncTable (funcTable thread)\<rparr> \<and>
        collapsedNodesInv thread r
          \<lparr>newStackTable = [], oldStackToNewStack = [None \<mapsto> None],
           prefixStackToCollapsedStack = Map.empty, collapsedResourceStacks = {},
           collapsedFrameIndex = None, collapsedFuncIndex = None,
           newFrameTable = shallowCloneFrameTable (frameTable thread),
           newFuncTable = shallowCloneFuncTable (funcTable thread)\<rparr> \<and>
        siblingsInv thread r d 0
          \<lparr>newStackTable = [], oldStackToNewStack = [None \<mapsto> None],
           prefixStackToCollapsedStack = Map.empty, collapsedResourceStacks = {},
           collapsedFrameIndex = None, collapsedFuncIndex = None,
           newFrameTable = shallowCloneFrameTable (frameTable thread),
           newFuncTable = shallowCloneFuncTable (funcTable thread)\<rparr>"
    by (simp add: collapseResourceInv_init collapsedNodesInv_init siblingsInv_def)
next
  fix m s1 s2
  assume m: "m < length (stackTable thread)"
    and inv: "collapseResourceInv s1 \<and> mapsBelow m s1 \<and> collapsedNodesInv thread r s1 \<and>
              siblingsInv thread r d m s1"
    and body: "collapseResource_body thread r impl d s1 m = Inr s2"
  show "collapseResourceInv s2 \<and> mapsBelow (Suc m) s2 \<and> collapsedNodesInv thread r s2 \<and>
        siblingsInv thread r d (Suc m) s2"
    using inv collapseResource_body_inv[OF _ body] collapseResource_body_maps[OF _ body]
      collapsedNodesInv_step[OF _ body] siblingsInv_step[OF ord m _ _ _ body]
    by blast
qed

text \<open>
  C5, amended. On a thread with an ordered stack table, two sibling stacks (same prefix)
  whose funcs are of the collapsed resource have the same new stack, one collapsed node:
  a row of the new table whose frame is the one new frame, pushed together with the one
  new func that has the name of the resource. When the new stack of their parent is not
  itself a collapsed node (the parent is null, or was kept), the node is reconciled with
  both: if the categories of the two siblings differ, the node has the default category
  and subcategory 0, and if their subcategories differ, it has subcategory 0.
\<close>

theorem collapseResource_siblings_one_node:
  assumes "prefixOrdered (stackTable thread)"
    and "collapseResource_loop thread r impl d = Inr s"
    and "i < length (stackTable thread)" and "j < length (stackTable thread)"
    and "prefix (stackTable thread ! i) = prefix (stackTable thread ! j)"
    and "stackResource thread i = Some (int r)" and "stackResource thread j = Some (int r)"
  shows "\<exists>c. oldStackToNewStack s (Some i) = Some (Some c) \<and>
             oldStackToNewStack s (Some j) = Some (Some c) \<and>
             c < length (newStackTable s) \<and>
             frame (newStackTable s ! c) = frameTableLength (frameTable thread) \<and>
             tablesExtended thread r s \<and>
             ((\<forall>v. oldStackToNewStack s (prefix (stackTable thread ! i)) = Some v \<longrightarrow>
                   v \<notin> collapsedResourceStacks s) \<longrightarrow>
              (category (stackTable thread ! i) \<noteq> category (stackTable thread ! j) \<longrightarrow>
                 category (newStackTable s ! c) = d \<and> subcategory (newStackTable s ! c) = 0) \<and>
              (subcategory (stackTable thread ! i) \<noteq> subcategory (stackTable thread ! j) \<longrightarrow>
                 subcategory (newStackTable s ! c) = 0))"
proof -
  let ?q = "prefix (stackTable thread ! i)"
  have inv: "collapsedNodesInv thread r s"
    and sib: "siblingsInv thread r d (length (stackTable thread)) s"
    using collapseResource_loop_siblings[OF assms(1,2)] by simp_all
  have oki: "siblingOK thread d s i" and okj: "siblingOK thread d s j"
    using sib assms(3,4,6,7) by (simp_all add: siblingsInv_def)
  from oki obtain c v where
    i1: "oldStackToNewStack s (Some i) = Some (Some c)"
    and i2: "oldStackToNewStack s ?q = Some v"
    and i3: "Some c \<in> collapsedResourceStacks s"
    and i4: "if v \<in> collapsedResourceStacks s then v = Some c
             else prefixStackToCollapsedStack s ?q = Some (Some c) \<and>
                  categoriesReconciled (newStackTable s ! c) (stackTable thread ! i) d"
    unfolding siblingOK_def by blast
  from okj obtain c' v' where
    j1: "oldStackToNewStack s (Some j) = Some (Some c')"
    and j2: "oldStackToNewStack s ?q = Some v'"
    and j4: "if v' \<in> collapsedResourceStacks s then v' = Some c'
             else prefixStackToCollapsedStack s ?q = Some (Some c') \<and>
                  categoriesReconciled (newStackTable s ! c') (stackTable thread ! j) d"
    unfolding siblingOK_def assms(5)[symmetric] by blast
  have vv: "v' = v" using i2 j2 by simp
  have cc: "c' = c" using i4 j4 vv by (auto split: if_splits)
  have node: "c < length (newStackTable s)"
    "frame (newStackTable s ! c) = frameTableLength (frameTable thread)"
    using inv i3 by (auto simp: collapsedNodesInv_def)
  have ext: "tablesExtended thread r s"
    using inv i3 by (auto simp: collapsedNodesInv_def split: option.splits)
  have cats: "category (stackTable thread ! i) \<noteq> category (stackTable thread ! j) \<longrightarrow>
                 category (newStackTable s ! c) = d \<and> subcategory (newStackTable s ! c) = 0"
    and subs: "subcategory (stackTable thread ! i) \<noteq> subcategory (stackTable thread ! j) \<longrightarrow>
                 subcategory (newStackTable s ! c) = 0"
    if "v \<notin> collapsedResourceStacks s"
    using i4 j4 vv cc that by (auto simp: categoriesReconciled_def)
  show ?thesis
    using i1 j1 cc node ext cats subs i2 by auto
qed

text \<open>The loop state and the thread that \<^verbatim>\<open>collapseResource\<close> returns.\<close>

lemma collapseResource_result:
  assumes "collapseResource thread r impl d = Inr t'"
  shows "\<exists>s. collapseResource_loop thread r impl d = Inr s \<and>
             stackTable t' = newStackTable s \<and> frameTable t' = newFrameTable s \<and>
             funcTable t' = newFuncTable s \<and>
             (\<forall>n<length (stack (samples thread)).
                getMapStackUpdater (oldStackToNewStack s) (stack (samples thread) ! n) =
                  Inr (stack (samples t') ! n))"
proof -
  from assms obtain s where loop: "collapseResource_loop thread r impl d = Inr s"
    and upd: "updateThreadStacks
                (thread\<lparr>frameTable := newFrameTable s, funcTable := newFuncTable s\<rparr>)
                (newStackTable s) (getMapStackUpdater (oldStackToNewStack s)) = Inr t'"
    by (auto simp: collapseResource_def split: sum.splits)
  have "funcTable t' = newFuncTable s"
    using upd by (auto simp: updateThreadStacks_def split: sum.splits)
  then show ?thesis
    using loop updateThreadStacks_stackTable[OF upd] updateThreadStacks_frameTable[OF upd]
      updateThreadStacks_sample[OF upd]
    by auto
qed

lemma rootsThread_facts:
  "prefixOrdered (stackTable rootsThread)"
  "collapseResource rootsThread 0 combined 9 = Inr rootsThreadCollapsed"
  "stackResource rootsThread 0 = Some (int 0)"
  "stackResource rootsThread 1 = Some (int 0)"
  by code_simp+

theorem collapseResource_siblings_one_node_witness:
  "prefixOrdered (stackTable rootsThread) \<and>
   collapseResource rootsThread 0 combined 9 = Inr rootsThreadCollapsed \<and>
   stackResource rootsThread 0 = Some 0 \<and> stackResource rootsThread 1 = Some 0 \<and>
   (\<exists>s c. collapseResource_loop rootsThread 0 combined 9 = Inr s \<and>
          newStackTable s = stackTable rootsThreadCollapsed \<and>
          oldStackToNewStack s (Some 0) = Some (Some c) \<and>
          oldStackToNewStack s (Some 1) = Some (Some c) \<and>
          category (newStackTable s ! c) = 9 \<and> subcategory (newStackTable s ! c) = 0)"
proof -
  obtain s where loop: "collapseResource_loop rootsThread 0 combined 9 = Inr s"
    and tbl: "stackTable rootsThreadCollapsed = newStackTable s"
    using collapseResource_result[OF rootsThread_facts(2)] by blast
  have inv: "mapsBelow (length (stackTable rootsThread)) s"
    "collapsedNodesInv rootsThread 0 s"
    using collapseResource_loop_siblings[OF rootsThread_facts(1) loop] by simp_all
  have parent: "\<forall>v. oldStackToNewStack s (prefix (stackTable rootsThread ! 0)) = Some v \<longrightarrow>
                   v \<notin> collapsedResourceStacks s"
    using inv by (simp add: rootsThread_def mapsBelow_def collapsedNodesInv_def)
  have cats: "category (stackTable rootsThread ! 0) \<noteq> category (stackTable rootsThread ! 1)"
    by (simp add: rootsThread_def)
  obtain c where "oldStackToNewStack s (Some 0) = Some (Some c)"
    "oldStackToNewStack s (Some 1) = Some (Some c)"
    "category (newStackTable s ! c) = 9" "subcategory (newStackTable s ! c) = 0"
    using collapseResource_siblings_one_node[OF rootsThread_facts(1) loop _ _ _
        rootsThread_facts(3,4)] parent cats
    by (auto simp: rootsThread_def)
  then show ?thesis
    using rootsThread_facts loop tbl by auto
qed

text \<open>
  C5, as it is stated, fails where the parent of the siblings is itself of the resource.
  The root and its two children, with the categories 1, 2 and 3, collapse into the one
  node that was made for the root; the two children are siblings of the resource with
  conflicting categories, and the node keeps the category 1 of the root, not the default
  category 9.
\<close>

theorem collapseResource_descendant_categories_counterexample:
  "collapseResource siblingThread 0 combined 9 = Inr siblingThreadCollapsed \<and>
   stackResource siblingThread 1 = Some 0 \<and> stackResource siblingThread 2 = Some 0 \<and>
   prefix (stackTable siblingThread ! 1) = prefix (stackTable siblingThread ! 2) \<and>
   category (stackTable siblingThread ! 1) = 2 \<and>
   category (stackTable siblingThread ! 2) = 3 \<and>
   stack (samples siblingThreadCollapsed) = [Some 0, Some 0, Some 0] \<and>
   category (stackTable siblingThreadCollapsed ! 0) = 1"
  by code_simp


end
